theory Spec2Isabelle
  imports Complex_Main "HOL-Library.Word"
begin

section \<open>Characters and strings\<close>

text \<open>
  A \<open>std::string\<close> is a \<^typ>\<open>string\<close> (a list of 8-bit characters). The character
  classes are those of the C locale, which \<open>::tolower\<close>, \<open>std::isalnum\<close> and the
  classes \<open>\s\<close> and \<open>\w\<close> of \<open>std::regex\<close> use.
\<close>

definition char_code :: "char \<Rightarrow> nat" where
  "char_code c = of_char c"

definition is_upper :: "char \<Rightarrow> bool" where
  "is_upper c = (65 \<le> char_code c \<and> char_code c \<le> 90)"

definition is_lower :: "char \<Rightarrow> bool" where
  "is_lower c = (97 \<le> char_code c \<and> char_code c \<le> 122)"

definition is_digit :: "char \<Rightarrow> bool" where
  "is_digit c = (48 \<le> char_code c \<and> char_code c \<le> 57)"

definition is_alnum :: "char \<Rightarrow> bool" where
  "is_alnum c = (is_upper c \<or> is_lower c \<or> is_digit c)"

definition is_word_char :: "char \<Rightarrow> bool" where
  "is_word_char c = (is_alnum c \<or> c = CHR ''_'')"

definition is_space :: "char \<Rightarrow> bool" where
  "is_space c = (char_code c = 32 \<or> (9 \<le> char_code c \<and> char_code c \<le> 13))"

definition to_lower :: "char \<Rightarrow> char" where
  "to_lower c = (if is_upper c then char_of (char_code c + 32) else c)"

definition starts_with :: "string \<Rightarrow> string \<Rightarrow> bool" where
  "starts_with p s = (take (length p) s = p)"

text \<open>\<open>s.find(c)\<close>: the index of the first occurrence, \<open>npos\<close> as \<open>None\<close>.\<close>

fun str_find :: "char \<Rightarrow> string \<Rightarrow> nat option" where
  "str_find c [] = None"
| "str_find c (x # xs) =
     (if x = c then Some 0
      else (case str_find c xs of None \<Rightarrow> None | Some i \<Rightarrow> Some (Suc i)))"

text \<open>\<open>s.find_last_of(c)\<close>.\<close>

definition str_find_last :: "char \<Rightarrow> string \<Rightarrow> nat option" where
  "str_find_last c s =
     (case str_find c (rev s) of None \<Rightarrow> None | Some i \<Rightarrow> Some (length s - 1 - i))"

section \<open>UrlUtils (src/utils/url\_utils.cpp)\<close>

text \<open>\<open>canonicalize\<close>: the fragment is cut off; nothing else is done.\<close>

definition canonicalize :: "string \<Rightarrow> string" where
  "canonicalize url =
     (case str_find CHR ''#'' url of
        None \<Rightarrow> url
      | Some frag_pos \<Rightarrow> take frag_pos url)"

text \<open>
  The common prefix \<open>https?://\<close> of the two regular expressions: the rest of the string
  after the scheme, when the string starts with it.
\<close>

definition strip_scheme :: "string \<Rightarrow> string option" where
  "strip_scheme s =
     (if starts_with ''https://'' s then Some (drop 8 s)
      else if starts_with ''http://'' s then Some (drop 7 s)
      else None)"

text \<open>
  \<open>extract_domain\<close>: \<open>regex_search\<close> with \<open>https?://([^/]+)\<close> finds the leftmost
  position where the pattern matches; the group is the longest run of characters other
  than \<open>/\<close> and must not be empty. The definition gives the value the call returns when
  it returns (the matcher can exhaust the stack on a long input, see \<open>is_valid\<close>).
\<close>

definition match_domain_at :: "string \<Rightarrow> string option" where
  "match_domain_at s =
     (case strip_scheme s of
        None \<Rightarrow> None
      | Some rest \<Rightarrow>
          (let d = takeWhile (\<lambda>c. c \<noteq> CHR ''/'') rest
           in if d = [] then None else Some d))"

fun extract_domain :: "string \<Rightarrow> string" where
  "extract_domain [] = []"
| "extract_domain (c # cs) =
     (case match_domain_at (c # cs) of
        Some d \<Rightarrow> d
      | None \<Rightarrow> extract_domain cs)"

definition normalize_url :: "string \<Rightarrow> string" where
  "normalize_url url =
     (let result = map to_lower url
      in if length result > 1 \<and> last result = CHR ''/'' then butlast result else result)"

text \<open>
  \<open>is_valid\<close>: \<open>regex_match\<close> of the whole string with \<open>https?://[^\s]+\<close>. The
  definition gives the value the call returns when it returns.
\<close>

definition is_valid :: "string \<Rightarrow> bool" where
  "is_valid url =
     (case strip_scheme url of
        None \<Rightarrow> False
      | Some rest \<Rightarrow> rest \<noteq> [] \<and> list_all (\<lambda>c. \<not> is_space c) rest)"

text \<open>
  The call does not always return. The matcher of \<open>std::regex\<close> works by backtracking
  recursion: every character it consumes adds a level of recursion, and on a long input
  the recursion exhausts the stack and the process ends there. \<open>regex_match_depth url\<close> is
  the number of characters the matcher consumes on \<open>url\<close> for this pattern: the part of
  the scheme that matches and, after a whole scheme, the run of characters that are not
  white space. \<open>stack_chars\<close> stands for the number of characters the stack allows; it
  depends on the size of the stack (some ten thousands with a stack of 8 MB).
  \<open>is_valid_within\<close> is \<open>is_valid\<close> with this failure: \<open>None\<close> when the call does not
  return.
\<close>

fun common_prefix_length :: "string \<Rightarrow> string \<Rightarrow> nat" where
  "common_prefix_length (x # xs) (y # ys) =
     (if x = y then Suc (common_prefix_length xs ys) else 0)"
| "common_prefix_length xs ys = 0"

definition regex_match_depth :: "string \<Rightarrow> nat" where
  "regex_match_depth url =
     (case strip_scheme url of
        None \<Rightarrow> max (common_prefix_length ''https://'' url)
                   (common_prefix_length ''http://'' url)
      | Some rest \<Rightarrow>
          (length url - length rest) + length (takeWhile (\<lambda>c. \<not> is_space c) rest))"

definition is_valid_within :: "nat \<Rightarrow> string \<Rightarrow> bool option" where
  "is_valid_within stack_chars url =
     (if regex_match_depth url > stack_chars then None else Some (is_valid url))"

definition resolve :: "string \<Rightarrow> string \<Rightarrow> string" where
  "resolve base_url relative_url =
     (if relative_url = [] then base_url
      else if starts_with ''http://'' relative_url \<or> starts_with ''https://'' relative_url
        then relative_url
      else if hd relative_url = CHR ''/'' then extract_domain base_url @ relative_url
      else (case str_find_last CHR ''/'' base_url of
              Some last_slash \<Rightarrow> take (last_slash + 1) base_url @ relative_url
            | None \<Rightarrow> base_url @ ''/'' @ relative_url))"

section \<open>Scheduler (src/scheduler/scheduler.cpp)\<close>

text \<open>
  A \<open>steady_clock::time_point\<close> is a number of nanoseconds; every operation that reads
  the clock takes the reading \<open>now\<close> as an argument.
\<close>

type_synonym time_point = int

definition milliseconds :: "int \<Rightarrow> time_point" where
  "milliseconds n = n * 1000000"

definition seconds :: "int \<Rightarrow> time_point" where
  "seconds n = n * 1000000000"

record CrawlTask =
  url :: string
  priority :: int
  retry_count :: int
  next_retry_time :: time_point

text \<open>
  \<open>std::priority_queue<CrawlTask>\<close> with \<open>operator<\<close> on the priority alone. The queue
  is the list of its tasks in the order they were pushed; \<open>top\<close> is a task of greatest
  priority. Which of several tasks of the same priority is on top is left open by the
  library (a binary heap does not keep the order of pushing); the model takes the one
  pushed first, and no statement below depends on that choice.
\<close>

fun max_task :: "CrawlTask \<Rightarrow> CrawlTask list \<Rightarrow> CrawlTask" where
  "max_task t [] = t"
| "max_task t (x # xs) = (if priority t < priority x then max_task x xs else max_task t xs)"

definition pq_push :: "CrawlTask \<Rightarrow> CrawlTask list \<Rightarrow> CrawlTask list" where
  "pq_push t q = q @ [t]"

definition pq_top :: "CrawlTask list \<Rightarrow> CrawlTask" where
  "pq_top q = max_task (hd q) (tl q)"

definition pq_pop :: "CrawlTask list \<Rightarrow> CrawlTask list" where
  "pq_pop q = remove1 (pq_top q) q"

record Scheduler =
  task_queue :: "CrawlTask list"
  domain_backoff :: "string \<rightharpoonup> time_point"
  running :: bool
  total_scheduled :: nat
  total_completed :: nat
  total_failed :: nat
  task_callback :: bool
  callback_calls :: "CrawlTask list"
  max_retries :: int
  retry_backoff_ms :: int
  worker_threads :: int

text \<open>
  The constructor reads the three parameters from the configuration. The field
  \<open>task_callback\<close> says whether a callback is set, and \<open>callback_calls\<close> lists the
  tasks it has been called with.
\<close>

definition new_scheduler :: "int \<Rightarrow> int \<Rightarrow> int \<Rightarrow> Scheduler" where
  "new_scheduler mr rb wt =
     \<lparr> task_queue = [], domain_backoff = Map.empty, running = False,
       total_scheduled = 0, total_completed = 0, total_failed = 0,
       task_callback = False, callback_calls = [],
       max_retries = mr, retry_backoff_ms = rb, worker_threads = wt \<rparr>"

definition add_url :: "Scheduler \<Rightarrow> time_point \<Rightarrow> string \<Rightarrow> int \<Rightarrow> bool \<times> Scheduler" where
  "add_url s now u p =
     (let normalized = canonicalize u
      in if \<not> is_valid normalized then (False, s)
         else
           (let task = \<lparr> url = normalized, priority = p, retry_count = 0,
                          next_retry_time = now \<rparr>
            in (True, s\<lparr> task_queue := pq_push task (task_queue s),
                         total_scheduled := total_scheduled s + 1 \<rparr>)))"

text \<open>
  \<open>add_url\<close> above is the call when its \<open>is_valid\<close> returns. \<open>add_url_within\<close> is the
  call on a stack that allows \<open>stack_chars\<close> characters: \<open>None\<close> when the matcher
  exhausts the stack on the canonical URL, so that the call does not return.
\<close>

definition add_url_within ::
  "nat \<Rightarrow> Scheduler \<Rightarrow> time_point \<Rightarrow> string \<Rightarrow> int \<Rightarrow> (bool \<times> Scheduler) option" where
  "add_url_within stack_chars s now u p =
     (case is_valid_within stack_chars (canonicalize u) of
        None \<Rightarrow> None
      | Some v \<Rightarrow> Some (add_url s now u p))"

fun add_seed_urls :: "Scheduler \<Rightarrow> time_point \<Rightarrow> string list \<Rightarrow> bool \<times> Scheduler" where
  "add_seed_urls s now [] = (True, s)"
| "add_seed_urls s now (u # us) =
     (case add_url s now u 0 of
        (False, s') \<Rightarrow> (False, s')
      | (True, s') \<Rightarrow> add_seed_urls s' now us)"

definition update_domain_backoff :: "Scheduler \<Rightarrow> time_point \<Rightarrow> string \<Rightarrow> Scheduler" where
  "update_domain_backoff s now d = s\<lparr> domain_backoff := (domain_backoff s)(d \<mapsto> now + seconds 1) \<rparr>"

definition can_fetch_domain :: "Scheduler \<Rightarrow> time_point \<Rightarrow> string \<Rightarrow> bool" where
  "can_fetch_domain s now d =
     (case domain_backoff s d of
        None \<Rightarrow> True
      | Some t \<Rightarrow> now \<ge> t)"

text \<open>
  \<open>get_next_task\<close>. While the queue is empty and the scheduler is running the call
  sleeps in its loop and does not return: the result \<open>None\<close>. Otherwise the result is
  \<open>Some (r, s')\<close>, where \<open>r\<close> is the task handed out (the call returned \<open>true\<close>) or
  \<open>None\<close> (it returned \<open>false\<close>).
\<close>

definition get_next_task :: "Scheduler \<Rightarrow> time_point \<Rightarrow> (CrawlTask option \<times> Scheduler) option" where
  "get_next_task s now =
     (if task_queue s = [] \<and> running s then None
      else if task_queue s = [] then Some (None, s)
      else
        (let task = pq_top (task_queue s);
             s1 = s\<lparr> task_queue := pq_pop (task_queue s) \<rparr>
         in if now < next_retry_time task
              then Some (None, s1\<lparr> task_queue := pq_push task (task_queue s1) \<rparr>)
            else if \<not> can_fetch_domain s1 now (extract_domain (url task))
              then Some (None, s1\<lparr> task_queue := pq_push task (task_queue s1) \<rparr>)
            else Some (Some task, s1)))"

definition mark_completed :: "Scheduler \<Rightarrow> string \<Rightarrow> Scheduler" where
  "mark_completed s u =
     (let s1 = s\<lparr> total_completed := total_completed s + 1 \<rparr>
      in if task_callback s1
           then s1\<lparr> callback_calls := callback_calls s1 @
                  [\<lparr> url = u, priority = 0, retry_count = 0, next_retry_time = 0 \<rparr>] \<rparr>
         else s1)"

definition mark_failed :: "Scheduler \<Rightarrow> time_point \<Rightarrow> string \<Rightarrow> bool \<Rightarrow> Scheduler" where
  "mark_failed s now u will_retry =
     (if \<not> will_retry then s\<lparr> total_failed := total_failed s + 1 \<rparr>
      else
        (let task = \<lparr> url = u, priority = 0, retry_count = 1,
                       next_retry_time = now + milliseconds (retry_backoff_ms s) \<rparr>;
             s1 = s\<lparr> task_queue := pq_push task (task_queue s) \<rparr>
         in update_domain_backoff s1 now (extract_domain u)))"

definition queue_size :: "Scheduler \<Rightarrow> nat" where
  "queue_size s = length (task_queue s)"

definition start :: "Scheduler \<Rightarrow> Scheduler" where
  "start s = s\<lparr> running := True \<rparr>"

definition stop :: "Scheduler \<Rightarrow> Scheduler" where
  "stop s = s\<lparr> running := False \<rparr>"

definition set_task_callback :: "Scheduler \<Rightarrow> Scheduler" where
  "set_task_callback s = s\<lparr> task_callback := True \<rparr>"

text \<open>
  A run of the frontier: the calls a client makes, each with the clock reading it sees.
  A call of \<open>get_next_task\<close> that does not return ends the run. The calls of \<open>add_url\<close>
  are taken to return; a run of the program in which one of them exhausts the stack ends
  at that call, in the state the run below has before it.
\<close>

datatype sched_op =
    AddUrl time_point string int
  | AddSeedUrls time_point "string list"
  | GetNextTask time_point
  | MarkCompleted string
  | MarkFailed time_point string bool
  | Start
  | Stop
  | SetTaskCallback

fun run_ops :: "Scheduler \<Rightarrow> sched_op list \<Rightarrow> Scheduler" where
  "run_ops s [] = s"
| "run_ops s (AddUrl now u p # ops) = run_ops (snd (add_url s now u p)) ops"
| "run_ops s (AddSeedUrls now us # ops) = run_ops (snd (add_seed_urls s now us)) ops"
| "run_ops s (GetNextTask now # ops) =
     (case get_next_task s now of
        None \<Rightarrow> s
      | Some (r, s') \<Rightarrow> run_ops s' ops)"
| "run_ops s (MarkCompleted u # ops) = run_ops (mark_completed s u) ops"
| "run_ops s (MarkFailed now u w # ops) = run_ops (mark_failed s now u w) ops"
| "run_ops s (Start # ops) = run_ops (start s) ops"
| "run_ops s (Stop # ops) = run_ops (stop s) ops"
| "run_ops s (SetTaskCallback # ops) = run_ops (set_task_callback s) ops"

text \<open>The URLs a run hands to \<open>mark_failed\<close> for a retry all match \<open>is_valid\<close>.\<close>

fun retries_valid :: "sched_op list \<Rightarrow> bool" where
  "retries_valid [] = True"
| "retries_valid (MarkFailed now u w # ops) = ((w \<longrightarrow> is_valid u) \<and> retries_valid ops)"
| "retries_valid (x # ops) = retries_valid ops"

definition queue_valid :: "Scheduler \<Rightarrow> bool" where
  "queue_valid s = list_all (\<lambda>t. is_valid (url t)) (task_queue s)"

section \<open>HashUtils (src/utils/hash\_utils.cpp)\<close>

text \<open>
  The file does not include the xxhash header, so \<open>XXHASH_H\<close> is not defined and
  \<open>xxhash\<close> is its fallback loop \<open>hash = ((hash << 5) + hash) + c\<close> on \<open>uint64_t\<close>,
  starting from 5381. The \<open>char c\<close> is converted to \<open>uint64_t\<close> as a signed character
  (bytes from 128 on are sign-extended), as on the platforms where \<open>char\<close> is signed.
\<close>

definition char_to_u64 :: "char \<Rightarrow> 64 word" where
  "char_to_u64 c =
     (if char_code c < 128 then of_nat (char_code c) else of_nat (char_code c) - 256)"

definition xxhash :: "string \<Rightarrow> 64 word" where
  "xxhash data = fold (\<lambda>c hash. (push_bit 5 hash + hash) + char_to_u64 c) data 5381"

definition hash_url :: "string \<Rightarrow> 64 word" where
  "hash_url u = xxhash u"

definition hash_content :: "string \<Rightarrow> 64 word" where
  "hash_content c = xxhash c"

section \<open>Library functions on strings\<close>

text \<open>\<open>std::to_string\<close> of an unsigned number: its decimal digits.\<close>

definition digit_char :: "nat \<Rightarrow> char" where
  "digit_char n = char_of (48 + n)"

fun to_string :: "nat \<Rightarrow> string" where
  "to_string n = (if n < 10 then [digit_char n] else to_string (n div 10) @ [digit_char (n mod 10)])"

declare to_string.simps [simp del]

text \<open>
  \<open>std::stoull(s)\<close> in base 10, as \<open>strtoull\<close> reads it: leading white space is
  skipped, a sign may follow, then the longest run of digits is read and the rest is
  ignored. With no digit it throws \<open>invalid_argument\<close>, with a value beyond
  \<open>2^64 - 1\<close> it throws \<open>out_of_range\<close>: both are the result \<open>None\<close>. After a minus
  sign the value is negated in \<open>uint64_t\<close>.
\<close>

definition digits_value :: "string \<Rightarrow> nat" where
  "digits_value ds = fold (\<lambda>c acc. acc * 10 + (char_code c - 48)) ds 0"

definition stoull :: "string \<Rightarrow> 64 word option" where
  "stoull s =
     (let s1 = dropWhile is_space s;
          neg = (s1 \<noteq> [] \<and> hd s1 = CHR ''-'');
          s2 = (if s1 \<noteq> [] \<and> (hd s1 = CHR ''-'' \<or> hd s1 = CHR ''+'') then tl s1 else s1);
          ds = takeWhile is_digit s2
      in if ds = [] then None
         else if digits_value ds \<ge> 2 ^ 64 then None
         else Some (if neg then - of_nat (digits_value ds) else of_nat (digits_value ds)))"

section \<open>Deduplicator (src/dedup/dedup.cpp)\<close>

text \<open>
  The Redis server is outside the program. Each operation sends at most one command; it
  takes as an argument the reply \<open>redisCommand\<close> gives if the command is sent:
  \<open>NullReply\<close> for the null pointer of an I/O error, \<open>Reply n\<close> for a reply whose
  \<open>integer\<close> field is \<open>n\<close>. The field \<open>redis_context\<close> says whether the context pointer
  is set. The field \<open>redis_sent\<close> is not a member of the class: it lists the commands
  sent over the connection, so that what an operation asks of the remote tier can be
  stated.
\<close>

datatype redis_reply = NullReply | Reply int

record Deduplicator =
  local_url_set :: "64 word set"
  local_content_set :: "64 word set"
  use_local_fallback :: bool
  redis_available :: bool
  redis_context :: bool
  url_duplicates :: nat
  content_duplicates :: nat
  redis_hits :: nat
  redis_misses :: nat
  redis_sent :: "string list"

definition new_deduplicator :: Deduplicator where
  "new_deduplicator =
     \<lparr> local_url_set = {}, local_content_set = {}, use_local_fallback = False,
       redis_available = False, redis_context = False, url_duplicates = 0,
       content_duplicates = 0, redis_hits = 0, redis_misses = 0, redis_sent = [] \<rparr>"

text \<open>\<open>init_redis\<close>: the argument says whether \<open>redisConnect\<close> gave a usable context.\<close>

definition init_redis :: "Deduplicator \<Rightarrow> bool \<Rightarrow> bool \<times> Deduplicator" where
  "init_redis d connect_ok =
     (if \<not> connect_ok then (False, d\<lparr> redis_available := False \<rparr>)
      else (True, d\<lparr> redis_context := True, redis_available := True \<rparr>))"

definition enable_local_fallback :: "Deduplicator \<Rightarrow> bool \<Rightarrow> Deduplicator" where
  "enable_local_fallback d enable = d\<lparr> use_local_fallback := enable \<rparr>"

definition check_redis_url :: "Deduplicator \<Rightarrow> string \<Rightarrow> redis_reply \<Rightarrow> bool \<times> Deduplicator" where
  "check_redis_url d key reply =
     (if \<not> redis_context d then (False, d)
      else
        (let d1 = d\<lparr> redis_sent := redis_sent d @ [''EXISTS '' @ key] \<rparr>
         in case reply of
              NullReply \<Rightarrow> (False, d1\<lparr> redis_available := False \<rparr>)
            | Reply n \<Rightarrow> (n = 1, d1)))"

definition check_redis_content :: "Deduplicator \<Rightarrow> string \<Rightarrow> redis_reply \<Rightarrow> bool \<times> Deduplicator" where
  "check_redis_content d key reply =
     (if \<not> redis_context d then (False, d)
      else
        (let d1 = d\<lparr> redis_sent := redis_sent d @ [''EXISTS '' @ key] \<rparr>
         in case reply of
              NullReply \<Rightarrow> (False, d1\<lparr> redis_available := False \<rparr>)
            | Reply n \<Rightarrow> (n = 1, d1)))"

definition mark_redis_url :: "Deduplicator \<Rightarrow> string \<Rightarrow> redis_reply \<Rightarrow> Deduplicator" where
  "mark_redis_url d key reply =
     (if \<not> redis_context d then d
      else
        (let d1 = d\<lparr> redis_sent := redis_sent d @ [''SETEX '' @ key @ '' 86400 1''] \<rparr>
         in case reply of
              NullReply \<Rightarrow> d1\<lparr> redis_available := False \<rparr>
            | Reply n \<Rightarrow> d1))"

definition mark_redis_content :: "Deduplicator \<Rightarrow> string \<Rightarrow> string \<Rightarrow> redis_reply \<Rightarrow> Deduplicator" where
  "mark_redis_content d key doc_id reply =
     (if \<not> redis_context d then d
      else
        (let d1 = d\<lparr> redis_sent := redis_sent d @ [''SETEX '' @ key @ '' 86400 '' @ doc_id] \<rparr>
         in case reply of
              NullReply \<Rightarrow> d1\<lparr> redis_available := False \<rparr>
            | Reply n \<Rightarrow> d1))"

definition is_url_seen :: "Deduplicator \<Rightarrow> string \<Rightarrow> redis_reply \<Rightarrow> bool \<times> Deduplicator" where
  "is_url_seen d u reply =
     (let canonical = canonicalize u;
          url_hash = hash_url canonical;
          (seen, d1) =
            (if redis_available d
               then check_redis_url d (''dedup:url:'' @ to_string (unat url_hash)) reply
             else (False, d))
      in if redis_available d \<and> seen
           then (True, d1\<lparr> redis_hits := redis_hits d1 + 1,
                           url_duplicates := url_duplicates d1 + 1 \<rparr>)
         else
           (let d2 = (if redis_available d then d1\<lparr> redis_misses := redis_misses d1 + 1 \<rparr>
                      else d1)
            in if use_local_fallback d2 \<or> \<not> redis_available d2
                 then (if url_hash \<in> local_url_set d2
                         then (True, d2\<lparr> url_duplicates := url_duplicates d2 + 1 \<rparr>)
                       else (False, d2))
               else (False, d2)))"

definition mark_url_seen :: "Deduplicator \<Rightarrow> string \<Rightarrow> redis_reply \<Rightarrow> Deduplicator" where
  "mark_url_seen d u reply =
     (let canonical = canonicalize u;
          url_hash = hash_url canonical;
          d1 = (if redis_available d
                  then mark_redis_url d (''dedup:url:'' @ to_string (unat url_hash)) reply
                else d)
      in if use_local_fallback d1 \<or> \<not> redis_available d1
           then d1\<lparr> local_url_set := insert url_hash (local_url_set d1) \<rparr>
         else d1)"

definition is_content_seen :: "Deduplicator \<Rightarrow> string \<Rightarrow> redis_reply \<Rightarrow> bool \<times> Deduplicator" where
  "is_content_seen d content_hash reply =
     (let hash = (case stoull content_hash of
                    Some n \<Rightarrow> n
                  | None \<Rightarrow> hash_content content_hash);
          (seen, d1) =
            (if redis_available d
               then check_redis_content d (''dedup:content:'' @ content_hash) reply
             else (False, d))
      in if redis_available d \<and> seen
           then (True, d1\<lparr> redis_hits := redis_hits d1 + 1,
                           content_duplicates := content_duplicates d1 + 1 \<rparr>)
         else
           (let d2 = (if redis_available d then d1\<lparr> redis_misses := redis_misses d1 + 1 \<rparr>
                      else d1)
            in if use_local_fallback d2 \<or> \<not> redis_available d2
                 then (if hash \<in> local_content_set d2
                         then (True, d2\<lparr> content_duplicates := content_duplicates d2 + 1 \<rparr>)
                       else (False, d2))
               else (False, d2)))"

definition mark_content_seen :: "Deduplicator \<Rightarrow> string \<Rightarrow> string \<Rightarrow> redis_reply \<Rightarrow> Deduplicator" where
  "mark_content_seen d content_hash doc_id reply =
     (let hash = (case stoull content_hash of
                    Some n \<Rightarrow> n
                  | None \<Rightarrow> hash_content content_hash);
          d1 = (if redis_available d
                  then mark_redis_content d (''dedup:content:'' @ content_hash) doc_id reply
                else d)
      in if use_local_fallback d1 \<or> \<not> redis_available d1
           then d1\<lparr> local_content_set := insert hash (local_content_set d1) \<rparr>
         else d1)"

text \<open>
  The four operations of the claims as one step function, and a run of them: each call
  comes with the reply the remote tier would give. The result of a query is \<open>Some b\<close>,
  that of a \<open>mark\<close> operation is \<open>None\<close>.
\<close>

datatype dedup_op =
    IsUrlSeen string
  | MarkUrlSeen string
  | IsContentSeen string
  | MarkContentSeen string string

fun dedup_step :: "Deduplicator \<Rightarrow> dedup_op \<Rightarrow> redis_reply \<Rightarrow> bool option \<times> Deduplicator" where
  "dedup_step d (IsUrlSeen u) r = (case is_url_seen d u r of (b, d') \<Rightarrow> (Some b, d'))"
| "dedup_step d (MarkUrlSeen u) r = (None, mark_url_seen d u r)"
| "dedup_step d (IsContentSeen c) r = (case is_content_seen d c r of (b, d') \<Rightarrow> (Some b, d'))"
| "dedup_step d (MarkContentSeen c i) r = (None, mark_content_seen d c i r)"

text \<open>A run gives the answers of its calls, in order, and the state it ends in.\<close>

fun dedup_run ::
  "Deduplicator \<Rightarrow> (dedup_op \<times> redis_reply) list \<Rightarrow> bool option list \<times> Deduplicator" where
  "dedup_run d [] = ([], d)"
| "dedup_run d ((x, r) # xs) =
     (case dedup_step d x r of
        (a, d') \<Rightarrow> (case dedup_run d' xs of (as, d'') \<Rightarrow> (a # as, d'')))"

text \<open>
  The reference the degraded deduplicator is compared with, after the words of the
  specification: a deduplicator that consults only the two in-process sets. A query
  answers by the membership of its key, a \<open>mark\<close> operation inserts its key.
\<close>

definition content_key :: "string \<Rightarrow> 64 word" where
  "content_key c = (case stoull c of Some n \<Rightarrow> n | None \<Rightarrow> hash_content c)"

fun local_step ::
  "64 word set \<times> 64 word set \<Rightarrow> dedup_op \<Rightarrow> bool option \<times> (64 word set \<times> 64 word set)" where
  "local_step (us, cs) (IsUrlSeen u) = (Some (hash_url (canonicalize u) \<in> us), (us, cs))"
| "local_step (us, cs) (MarkUrlSeen u) = (None, (insert (hash_url (canonicalize u)) us, cs))"
| "local_step (us, cs) (IsContentSeen c) = (Some (content_key c \<in> cs), (us, cs))"
| "local_step (us, cs) (MarkContentSeen c i) = (None, (us, insert (content_key c) cs))"

fun local_answers :: "64 word set \<times> 64 word set \<Rightarrow> dedup_op list \<Rightarrow> bool option list" where
  "local_answers l [] = []"
| "local_answers l (x # xs) =
     (case local_step l x of (a, l') \<Rightarrow> a # local_answers l' xs)"

definition local_sets :: "Deduplicator \<Rightarrow> 64 word set \<times> 64 word set" where
  "local_sets d = (local_url_set d, local_content_set d)"

section \<open>Fetcher (src/fetcher/fetcher.cpp)\<close>

text \<open>
  The network is outside the program: \<open>net u\<close> is what one transfer of libcurl for the
  URL \<open>u\<close> gives. \<open>CurlInitFailed\<close>: \<open>curl_easy_init\<close> returned null.
  \<open>CurlError m\<close>: \<open>curl_easy_perform\<close> failed, \<open>m\<close> is the text of
  \<open>curl_easy_strerror\<close>. \<open>HttpResponse code eff ct body loc\<close>: the transfer succeeded
  with the status \<open>code\<close>, the effective URL, the content type, the body written by the
  callback and the redirect URL (\<open>None\<close> is a null pointer).
\<close>

datatype curl_response =
    CurlInitFailed
  | CurlError string
  | HttpResponse int "string option" "string option" string "string option"

record FetchResult =
  success :: bool
  http_status :: int
  content :: string
  final_url :: string
  content_type :: string
  latency :: int
  redirects :: "string list"
  error_message :: string
  content_hash :: string
  content_size :: nat

definition default_result :: FetchResult where
  "default_result =
     \<lparr> success = False, http_status = 0, content = [], final_url = [], content_type = [],
       latency = 0, redirects = [], error_message = [], content_hash = [],
       content_size = 0 \<rparr>"

record Fetcher =
  connect_timeout_ms :: int
  read_timeout_ms :: int
  max_redirects :: int
  user_agent :: string
  total_fetches :: nat
  successful_fetches :: nat
  failed_fetches :: nat
  total_latency_ms :: nat

definition new_fetcher :: "int \<Rightarrow> int \<Rightarrow> int \<Rightarrow> string \<Rightarrow> Fetcher" where
  "new_fetcher ct rt mr ua =
     \<lparr> connect_timeout_ms = ct, read_timeout_ms = rt, max_redirects = mr, user_agent = ua,
       total_fetches = 0, successful_fetches = 0, failed_fetches = 0,
       total_latency_ms = 0 \<rparr>"

definition set_max_redirects :: "Fetcher \<Rightarrow> int \<Rightarrow> Fetcher" where
  "set_max_redirects f m = f\<lparr> max_redirects := m \<rparr>"

definition string_or_empty :: "string option \<Rightarrow> string" where
  "string_or_empty p = (case p of None \<Rightarrow> [] | Some x \<Rightarrow> x)"

function fetch_impl :: "Fetcher \<Rightarrow> (string \<Rightarrow> curl_response) \<Rightarrow> string \<Rightarrow> int \<Rightarrow> FetchResult" where
  "fetch_impl f net u redirect_count =
     (if redirect_count > max_redirects f
        then default_result\<lparr> success := False, error_message := ''Too many redirects'' \<rparr>
      else
        (case net u of
           CurlInitFailed \<Rightarrow>
             default_result\<lparr> success := False, error_message := ''Failed to initialize CURL'' \<rparr>
         | CurlError m \<Rightarrow> default_result\<lparr> success := False, error_message := m \<rparr>
         | HttpResponse http_code eff ct body loc \<Rightarrow>
             (let result = default_result\<lparr> http_status := http_code,
                              final_url := string_or_empty eff,
                              content_type := string_or_empty ct \<rparr>
              in if http_code \<ge> 200 \<and> http_code < 300
                   then result\<lparr> success := True, content := body \<rparr>
                 else if http_code \<ge> 300 \<and> http_code < 400
                   then (case loc of
                           Some location \<Rightarrow>
                             (let redirect_result = fetch_impl f net location (redirect_count + 1)
                              in redirect_result\<lparr> redirects := [location] @ redirects redirect_result \<rparr>)
                         | None \<Rightarrow> result)
                 else result)))"
  by pat_completeness auto
termination
  by (relation "measure (\<lambda>(f, net, u, redirect_count). nat (max_redirects f + 1 - redirect_count))")
    auto

declare fetch_impl.simps [simp del]

text \<open>
  \<open>fetch\<close>; \<open>elapsed\<close> is the time the call took, in milliseconds. The assignment
  \<open>result.content_hash = HashUtils::hash_content(result.content)\<close> assigns a
  \<open>uint64_t\<close> to a \<open>std::string\<close>: the overload taken is \<open>operator=(char)\<close>, so the
  string becomes the one character that the low byte of the hash is.
\<close>

definition fetch :: "Fetcher \<Rightarrow> (string \<Rightarrow> curl_response) \<Rightarrow> int \<Rightarrow> string \<Rightarrow> FetchResult \<times> Fetcher" where
  "fetch f net elapsed u =
     (let f1 = f\<lparr> total_fetches := total_fetches f + 1 \<rparr>;
          result = (fetch_impl f1 net u 0)\<lparr> latency := elapsed \<rparr>;
          f2 = f1\<lparr> total_latency_ms := total_latency_ms f1 + nat elapsed \<rparr>
      in if success result
           then (result\<lparr> content_hash := [char_of (unat (hash_content (content result)))],
                          content_size := length (content result) \<rparr>,
                 f2\<lparr> successful_fetches := successful_fetches f2 + 1 \<rparr>)
         else (result, f2\<lparr> failed_fetches := failed_fetches f2 + 1 \<rparr>))"

text \<open>
  A redirect chain in a network: from \<open>u\<close>, the URLs \<open>vs\<close> are reached one after the
  other, each by a 3xx response whose redirect URL is the next one. A URL answers with
  success when its response is 2xx.
\<close>

definition redirects_to :: "curl_response \<Rightarrow> string \<Rightarrow> bool" where
  "redirects_to r v =
     (case r of
        HttpResponse http_code eff ct body (Some location) \<Rightarrow>
          http_code \<ge> 300 \<and> http_code < 400 \<and> location = v
      | _ \<Rightarrow> False)"

fun redirect_chain :: "(string \<Rightarrow> curl_response) \<Rightarrow> string \<Rightarrow> string list \<Rightarrow> bool" where
  "redirect_chain net u [] = True"
| "redirect_chain net u (v # vs) = (redirects_to (net u) v \<and> redirect_chain net v vs)"

definition responds_ok :: "curl_response \<Rightarrow> string \<Rightarrow> bool" where
  "responds_ok r b =
     (case r of
        HttpResponse http_code eff ct body loc \<Rightarrow> http_code \<ge> 200 \<and> http_code < 300 \<and> body = b
      | _ \<Rightarrow> False)"

text \<open>
  A small network for concrete runs: \<open>/0\<close> redirects to \<open>/1\<close>, \<open>/1\<close> to \<open>/2\<close>, and
  \<open>/2\<close> answers 200.
\<close>

definition example_net :: "string \<Rightarrow> curl_response" where
  "example_net u =
     (if u = ''http://a.test/0''
        then HttpResponse 301 None None [] (Some ''http://a.test/1'')
      else if u = ''http://a.test/1''
        then HttpResponse 302 None None [] (Some ''http://a.test/2'')
      else if u = ''http://a.test/2''
        then HttpResponse 200 (Some ''http://a.test/2'') (Some ''text/html'') ''hello'' None
      else CurlError ''Could not resolve host'')"

section \<open>Parser (src/parser/parser.cpp)\<close>

text \<open>
  The HTML parser (gumbo) is a library: \<open>gumbo_parse\<close> is a parameter of the functions
  that call it, and its output is a tree of nodes. Only text and element nodes are looked
  at by the code; every other node type (document, comment, CDATA, white space, template)
  is \<open>GUMBO_NODE_OTHER\<close>, and every tag other than the four the code names is
  \<open>GUMBO_TAG_OTHER\<close>. An element has its tag, its attributes and its children.
\<close>

datatype GumboTag =
  GUMBO_TAG_TITLE | GUMBO_TAG_SCRIPT | GUMBO_TAG_STYLE | GUMBO_TAG_A | GUMBO_TAG_OTHER

datatype GumboNode =
    GUMBO_NODE_TEXT string
  | GUMBO_NODE_ELEMENT GumboTag "(string \<times> string) list" "GumboNode list"
  | GUMBO_NODE_OTHER

text \<open>
  \<open>unordered_map<string, vector<size_t>>\<close>: the list of its entries, one per key. The
  order of the entries is that of first insertion; no function below depends on it.
\<close>

type_synonym term_map = "(string \<times> nat list) list"

record ParsedDocument =
  doc_url :: string
  title :: string
  text_content :: string
  links :: "string list"
  links_with_anchor :: "(string \<times> string) list"
  metadata :: "(string \<times> string) list"
  tokens :: "string list"
  term_positions :: term_map

text \<open>\<open>gumbo_get_attribute\<close> compares attribute names without regard to case.\<close>

fun gumbo_get_attribute :: "(string \<times> string) list \<Rightarrow> string \<Rightarrow> string option" where
  "gumbo_get_attribute [] name = None"
| "gumbo_get_attribute ((n, v) # attrs) name =
     (if map to_lower n = map to_lower name then Some v else gumbo_get_attribute attrs name)"

fun extract_text_recursive :: "GumboNode \<Rightarrow> string \<Rightarrow> string" where
  "extract_text_recursive (GUMBO_NODE_TEXT t) text = text @ t @ '' ''"
| "extract_text_recursive (GUMBO_NODE_ELEMENT tag attrs children) text =
     (if tag \<noteq> GUMBO_TAG_SCRIPT \<and> tag \<noteq> GUMBO_TAG_STYLE
        then fold extract_text_recursive children text
      else text)"
| "extract_text_recursive GUMBO_NODE_OTHER text = text"

definition extract_text :: "(string \<Rightarrow> GumboNode) \<Rightarrow> string \<Rightarrow> string" where
  "extract_text gumbo_parse html = extract_text_recursive (gumbo_parse html) []"

text \<open>The anchor text: the text of the children that are text nodes.\<close>

fun anchor_text_of :: "GumboNode list \<Rightarrow> string" where
  "anchor_text_of [] = []"
| "anchor_text_of (GUMBO_NODE_TEXT t # cs) = t @ anchor_text_of cs"
| "anchor_text_of (c # cs) = anchor_text_of cs"

fun extract_links_recursive ::
  "GumboNode \<Rightarrow> string \<Rightarrow> (string \<times> string) list \<Rightarrow> (string \<times> string) list" where
  "extract_links_recursive (GUMBO_NODE_ELEMENT tag attrs children) base_url found =
     (let found1 =
        (if tag = GUMBO_TAG_A
           then (case gumbo_get_attribute attrs ''href'' of
                   Some href \<Rightarrow> found @ [(resolve base_url href, anchor_text_of children)]
                 | None \<Rightarrow> found)
         else found)
      in fold (\<lambda>child acc. extract_links_recursive child base_url acc) children found1)"
| "extract_links_recursive (GUMBO_NODE_TEXT t) base_url found = found"
| "extract_links_recursive GUMBO_NODE_OTHER base_url found = found"

definition extract_links ::
  "(string \<Rightarrow> GumboNode) \<Rightarrow> string \<Rightarrow> string \<Rightarrow> (string \<times> string) list" where
  "extract_links gumbo_parse html base_url =
     extract_links_recursive (gumbo_parse html) base_url []"

text \<open>
  \<open>tokenize\<close>: the matches of \<open>\b\w+\b\<close>, left to right, are the maximal runs of word
  characters. \<open>cur\<close> is the run being read. As for \<open>is_valid\<close>, this is the value
  the call returns when the matcher returns.
\<close>

fun tokenize_from :: "string \<Rightarrow> string \<Rightarrow> string list" where
  "tokenize_from cur [] = (if cur = [] then [] else [cur])"
| "tokenize_from cur (c # cs) =
     (if is_word_char c then tokenize_from (cur @ [c]) cs
      else if cur = [] then tokenize_from [] cs
      else cur # tokenize_from [] cs)"

definition tokenize :: "string \<Rightarrow> string list" where
  "tokenize text = tokenize_from [] text"

definition normalize_token :: "string \<Rightarrow> string" where
  "normalize_token token = filter is_alnum (map to_lower token)"

text \<open>\<open>m[key].push_back(i)\<close> on the map of term positions.\<close>

fun positions_push :: "string \<Rightarrow> nat \<Rightarrow> term_map \<Rightarrow> term_map" where
  "positions_push key i [] = [(key, [i])]"
| "positions_push key i ((k, ps) # m) =
     (if k = key then (k, ps @ [i]) # m else (k, ps) # positions_push key i m)"

text \<open>
  The loop \<open>for (size_t i = 0; i < doc.tokens.size(); i++)\<close> of \<open>parse\<close>, from the index
  \<open>i\<close> on, over the tokens that are left.
\<close>

fun build_term_positions :: "string list \<Rightarrow> nat \<Rightarrow> term_map \<Rightarrow> term_map" where
  "build_term_positions [] i m = m"
| "build_term_positions (tok # toks) i m =
     (let normalized = normalize_token tok
      in build_term_positions toks (i + 1)
           (if normalized \<noteq> [] then positions_push normalized i m else m))"

text \<open>The title: the first child of the root that is a \<open>title\<close> element decides.\<close>

fun find_title :: "GumboNode list \<Rightarrow> string" where
  "find_title [] = []"
| "find_title (GUMBO_NODE_ELEMENT tag attrs cs # rest) =
     (if tag = GUMBO_TAG_TITLE
        then (case cs of
                GUMBO_NODE_TEXT t # others \<Rightarrow> t
              | _ \<Rightarrow> [])
      else find_title rest)"
| "find_title (c # rest) = find_title rest"

definition parse :: "(string \<Rightarrow> GumboNode) \<Rightarrow> string \<Rightarrow> string \<Rightarrow> ParsedDocument" where
  "parse gumbo_parse u html_content =
     (let root = gumbo_parse html_content;
          doc_title = (case root of
                         GUMBO_NODE_ELEMENT tag attrs children \<Rightarrow> find_title children
                       | _ \<Rightarrow> []);
          text = extract_text gumbo_parse html_content;
          lwa = extract_links gumbo_parse html_content u;
          toks = tokenize text
      in \<lparr> doc_url = u, title = doc_title, text_content = text, links = map fst lwa,
           links_with_anchor = lwa, metadata = [], tokens = toks,
           term_positions = build_term_positions toks 0 [] \<rparr>)"

text \<open>A parser output for concrete runs: a page with the text \<open>Cat ___ dog\<close> and one link.\<close>

definition example_page :: "string \<Rightarrow> GumboNode" where
  "example_page html =
     GUMBO_NODE_ELEMENT GUMBO_TAG_OTHER []
       [GUMBO_NODE_ELEMENT GUMBO_TAG_OTHER []
          [GUMBO_NODE_TEXT ''Cat ___ dog'',
           GUMBO_NODE_ELEMENT GUMBO_TAG_A [(''href'', ''/x'')] [GUMBO_NODE_TEXT ''cat'']]]"

text \<open>
  What the loop of \<open>parse\<close> keeps true, for the tokens \<open>toks\<close> and the indices below
  \<open>n\<close>: the map has one entry per key, and every position list is non-empty, strictly
  increasing and holds indices below \<open>n\<close> of tokens whose normal form is the key.
\<close>

definition positions_ok :: "string list \<Rightarrow> nat \<Rightarrow> term_map \<Rightarrow> bool" where
  "positions_ok toks n m =
     (distinct (map fst m) \<and>
      (\<forall>(t, ps) \<in> set m. ps \<noteq> [] \<and> sorted_wrt (<) ps \<and>
         (\<forall>p \<in> set ps. p < n \<and> p < length toks \<and> normalize_token (toks ! p) = t)))"

text \<open>
  The other half of what the loop keeps true: below \<open>n\<close>, the index of every token
  whose normal form is not empty is in the position list of that normal form.
\<close>

definition positions_cover :: "string list \<Rightarrow> nat \<Rightarrow> term_map \<Rightarrow> bool" where
  "positions_cover toks n m =
     (\<forall>i < n. i < length toks \<and> normalize_token (toks ! i) \<noteq> [] \<longrightarrow>
        (\<exists>ps. (normalize_token (toks ! i), ps) \<in> set m \<and> i \<in> set ps))"

section \<open>Indexer (src/indexer/indexer.cpp)\<close>

text \<open>
  A \<open>double\<close> is a real number here: rounding, infinities and NaN are outside the model.
  Document ids are \<open>uint64_t\<close>; sizes and counters (\<open>size_t\<close>) are natural numbers.
\<close>

record Document =
  doc_id :: "64 word"
  d_url :: string
  d_title :: string
  d_text_content :: string
  d_term_positions :: term_map
  category :: string
  price :: real
  brand :: string

record Posting =
  p_doc_id :: "64 word"
  positions :: "nat list"
  tf :: real
  idf :: real
  bm25_score :: real

record SearchResult =
  r_doc_id :: "64 word"
  r_url :: string
  r_title :: string
  snippet :: string
  score :: real

record Indexer =
  index_dir :: string
  inverted_index :: "string \<rightharpoonup> Posting list"
  forward_index :: "64 word \<rightharpoonup> Document"
  doc_lengths :: "64 word \<rightharpoonup> nat"
  next_doc_id :: "64 word"
  current_segment_size :: nat
  segment_count :: nat
  total_documents :: nat
  bm25_k1 :: real
  bm25_b :: real
  avg_doc_length :: real
  max_docs_per_segment :: int
  segment_size_mb :: int

definition new_indexer :: "string \<Rightarrow> Indexer" where
  "new_indexer dir =
     \<lparr> index_dir = dir, inverted_index = Map.empty, forward_index = Map.empty,
       doc_lengths = Map.empty, next_doc_id = 1, current_segment_size = 0,
       segment_count = 0, total_documents = 0, bm25_k1 = 1.5, bm25_b = 0.75, avg_doc_length = 0,
       max_docs_per_segment = 100000, segment_size_mb = 100 \<rparr>"

text \<open>\<open>flush_segment\<close>; the segment file it opens is outside the model.\<close>

definition flush_segment :: "Indexer \<Rightarrow> Indexer" where
  "flush_segment ix =
     (if current_segment_size ix = 0 then ix
      else ix\<lparr> segment_count := segment_count ix + 1, current_segment_size := 0 \<rparr>)"

definition merge_segments :: "Indexer \<Rightarrow> Indexer" where
  "merge_segments ix = flush_segment ix"

text \<open>
  The loop of \<open>index_document\<close> over the entries of \<open>term_positions\<close>: it appends one
  posting per non-empty term and adds up the document length.
\<close>

fun index_terms ::
  "64 word \<Rightarrow> term_map \<Rightarrow> (string \<rightharpoonup> Posting list) \<times> nat \<Rightarrow> (string \<rightharpoonup> Posting list) \<times> nat" where
  "index_terms did [] (inverted, doc_length) = (inverted, doc_length)"
| "index_terms did ((term, ps) # rest) (inverted, doc_length) =
     (if term = [] then index_terms did rest (inverted, doc_length)
      else
        (let posting = \<lparr> p_doc_id = did, positions = ps, tf = real (length ps), idf = 0,
                          bm25_score = 0 \<rparr>;
             old = (case inverted term of None \<Rightarrow> [] | Some l \<Rightarrow> l)
         in index_terms did rest (inverted(term \<mapsto> old @ [posting]), doc_length + length ps)))"

text \<open>
  \<open>index_document(parsed_doc, metadata)\<close>. \<open>stod\<close> stands for \<open>std::stod\<close>, which throws
  on a string that is no number (\<open>None\<close>). The result is \<open>Some True\<close> for the return
  value \<open>true\<close>, and \<open>None\<close> when the call leaves by that exception; the document id has
  been taken from \<open>next_doc_id_\<close> by then.
\<close>

definition index_document ::
  "(string \<Rightarrow> real option) \<Rightarrow> Indexer \<Rightarrow> ParsedDocument \<Rightarrow> (string \<rightharpoonup> string) \<Rightarrow>
     bool option \<times> Indexer" where
  "index_document stod ix parsed_doc md =
     (let did = next_doc_id ix;
          ix1 = ix\<lparr> next_doc_id := next_doc_id ix + 1 \<rparr>;
          doc = \<lparr> doc_id = did, d_url = doc_url parsed_doc, d_title = title parsed_doc,
                  d_text_content = text_content parsed_doc,
                  d_term_positions = term_positions parsed_doc,
                  category = [], price = 0, brand = [] \<rparr>;
          doc1 = (case md ''category'' of Some c \<Rightarrow> doc\<lparr> category := c \<rparr> | None \<Rightarrow> doc)
      in case (case md ''price'' of
                 Some p \<Rightarrow> (case stod p of Some x \<Rightarrow> Some (doc1\<lparr> price := x \<rparr>) | None \<Rightarrow> None)
               | None \<Rightarrow> Some doc1) of
           None \<Rightarrow> (None, ix1)
         | Some doc2 \<Rightarrow>
             (let doc3 = (case md ''brand'' of Some br \<Rightarrow> doc2\<lparr> brand := br \<rparr> | None \<Rightarrow> doc2);
                  (inverted, doc_length) =
                     index_terms did (term_positions parsed_doc) (inverted_index ix1, 0);
                  ix2 = ix1\<lparr> inverted_index := inverted,
                             doc_lengths := (doc_lengths ix1)(did \<mapsto> doc_length),
                             forward_index := (forward_index ix1)(did \<mapsto> doc3),
                             total_documents := total_documents ix1 + 1,
                             current_segment_size := current_segment_size ix1 + 1 \<rparr>;
                  ix3 = (if total_documents ix2 > 0
                           then ix2\<lparr> avg_doc_length :=
                                  (avg_doc_length ix2 * real (total_documents ix2 - 1)
                                     + real doc_length) / real (total_documents ix2) \<rparr>
                         else ix2);
                  ix4 = (if current_segment_size ix3 \<ge> nat (max_docs_per_segment ix3 mod 2 ^ 64)
                           then flush_segment ix3 else ix3)
              in (Some True, ix4)))"

text \<open>
  A sequence of calls of \<open>index_document\<close>: the document ids the calls allocated, in the
  order of the calls, and the index after the last one.
\<close>

fun index_documents ::
  "(string \<Rightarrow> real option) \<Rightarrow> Indexer \<Rightarrow> (ParsedDocument \<times> (string \<rightharpoonup> string)) list \<Rightarrow>
     64 word list \<times> Indexer" where
  "index_documents stod ix [] = ([], ix)"
| "index_documents stod ix ((d, md) # ds) =
     (case index_documents stod (snd (index_document stod ix d md)) ds of
        (ids, ix') \<Rightarrow> (next_doc_id ix # ids, ix'))"

definition calculate_bm25 :: "Indexer \<Rightarrow> string \<Rightarrow> 64 word \<Rightarrow> nat list \<Rightarrow> real" where
  "calculate_bm25 ix term did ps =
     (let tf' = real (length ps)
      in case doc_lengths ix did of
           None \<Rightarrow> 0
         | Some len \<Rightarrow>
             (let doc_length = real len;
                  normalized_length = doc_length / avg_doc_length ix;
                  numerator = tf' * (bm25_k1 ix + 1);
                  denominator = tf' + bm25_k1 ix * (1 - bm25_b ix + bm25_b ix * normalized_length)
              in numerator / denominator))"

text \<open>\<open>while (iss >> term)\<close>: the maximal runs of characters that are not white space.\<close>

fun words_from :: "string \<Rightarrow> string \<Rightarrow> string list" where
  "words_from cur [] = (if cur = [] then [] else [cur])"
| "words_from cur (c # cs) =
     (if \<not> is_space c then words_from (cur @ [c]) cs
      else if cur = [] then words_from [] cs
      else cur # words_from [] cs)"

text \<open>\<open>doc_scores[doc_id] += x\<close> on the \<open>unordered_map<uint64_t, double>\<close>.\<close>

fun score_add :: "64 word \<Rightarrow> real \<Rightarrow> (64 word \<times> real) list \<Rightarrow> (64 word \<times> real) list" where
  "score_add k x [] = [(k, 0 + x)]"
| "score_add k x ((k', v) # m) =
     (if k' = k then (k', v + x) # m else (k', v) # score_add k x m)"

definition score_term :: "Indexer \<Rightarrow> string \<Rightarrow> (64 word \<times> real) list \<Rightarrow> (64 word \<times> real) list" where
  "score_term ix query_term doc_scores =
     (case inverted_index ix query_term of
        None \<Rightarrow> doc_scores
      | Some postings \<Rightarrow>
          (let idf' = ln (real (total_documents ix) / real (length postings))
           in fold (\<lambda>posting acc.
                      score_add (p_doc_id posting)
                        (calculate_bm25 ix query_term (p_doc_id posting) (positions posting) * idf')
                        acc)
                postings doc_scores))"

text \<open>
  \<open>std::sort(first, last, comp)\<close>: the elements in an order in which no element comes
  before one that \<open>comp\<close> puts first. The model is the insertion sort that keeps elements
  which \<open>comp\<close> (here \<open>cmp\<close>) does not order in the order they come in.
\<close>

fun sort_insert :: "('a \<Rightarrow> 'a \<Rightarrow> bool) \<Rightarrow> 'a \<Rightarrow> 'a list \<Rightarrow> 'a list" where
  "sort_insert cmp x [] = [x]"
| "sort_insert cmp x (y # ys) =
     (if cmp y x then y # sort_insert cmp x ys else x # y # ys)"

definition std_sort :: "('a \<Rightarrow> 'a \<Rightarrow> bool) \<Rightarrow> 'a list \<Rightarrow> 'a list" where
  "std_sort cmp xs = foldr (sort_insert cmp) xs []"

definition make_result :: "Indexer \<Rightarrow> 64 word \<times> real \<Rightarrow> SearchResult option" where
  "make_result ix e =
     (case forward_index ix (fst e) of
        None \<Rightarrow> None
      | Some doc \<Rightarrow>
          Some \<lparr> r_doc_id = fst e, r_url = d_url doc, r_title = d_title doc,
                 snippet = take 200 (d_text_content doc) @
                   (if length (d_text_content doc) > 200 then ''...'' else []),
                 score = snd e \<rparr>)"

text \<open>
  \<open>search\<close>. The order in which the loop \<open>for (const auto& [doc_id, score] : doc_scores)\<close>
  visits an \<open>unordered_map\<close> is not specified: \<open>iteration_order\<close> stands for it, giving
  the entries in the order visited from the entries in the order of insertion. Together
  with it the sort above covers every order that an unstable \<open>std::sort\<close> may leave
  between entries of equal score.
\<close>

definition search ::
  "((64 word \<times> real) list \<Rightarrow> (64 word \<times> real) list) \<Rightarrow> Indexer \<Rightarrow> string \<Rightarrow> int \<Rightarrow>
     SearchResult list" where
  "search iteration_order ix query topk =
     (let query_terms = map (map to_lower) (words_from [] query);
          doc_scores = fold (score_term ix) query_terms [];
          scored_docs = std_sort (\<lambda>x y. snd x > snd y) (iteration_order doc_scores);
          n = min (nat (topk mod 2 ^ 64)) (length scored_docs)
      in List.map_filter (make_result ix) (take n scored_docs))"

definition total_terms :: "Indexer \<Rightarrow> nat" where
  "total_terms ix = card (dom (inverted_index ix))"

text \<open>A parsed document for concrete runs: the text \<open>cat\<close> at the URL \<open>u\<close>.\<close>

definition cat_doc :: "string \<Rightarrow> ParsedDocument" where
  "cat_doc u =
     \<lparr> doc_url = u, title = [], text_content = ''cat '', links = [], links_with_anchor = [],
       metadata = [], tokens = [''cat''], term_positions = [(''cat'', [0])] \<rparr>"

text \<open>
  The document ids of the posting list of a term (none when the term has no list), and
  what \<open>index_document\<close> keeps true of them: every posting list has strictly increasing
  document ids, all below \<open>next_doc_id\<close>.
\<close>

definition posting_ids :: "(string \<rightharpoonup> Posting list) \<Rightarrow> string \<Rightarrow> 64 word list" where
  "posting_ids inverted t = (case inverted t of None \<Rightarrow> [] | Some l \<Rightarrow> map p_doc_id l)"

definition postings_sorted :: "Indexer \<Rightarrow> bool" where
  "postings_sorted ix =
     (\<forall>t. sorted_wrt (<) (posting_ids (inverted_index ix) t) \<and>
          (\<forall>i \<in> set (posting_ids (inverted_index ix) t). i < next_doc_id ix))"

text \<open>The index after two documents with the text \<open>cat\<close> have been indexed.\<close>

definition two_cat_index :: Indexer where
  "two_cat_index =
     snd (index_documents (\<lambda>s. None) (new_indexer ''idx'')
       [(cat_doc ''https://a.test/1'', Map.empty), (cat_doc ''https://a.test/2'', Map.empty)])"

section \<open>Properties of UrlUtils\<close>

lemma str_find_Some_take:
  "str_find c s = Some i \<Longrightarrow> take i s = takeWhile (\<lambda>x. x \<noteq> c) s"
  by (induction s arbitrary: i) (auto split: if_splits option.splits)

lemma str_find_None_iff: "str_find c s = None \<longleftrightarrow> c \<notin> set s"
  by (induction s) (auto split: option.splits)

lemma canonicalize_takeWhile: "canonicalize u = takeWhile (\<lambda>x. x \<noteq> CHR ''#'') u"
proof (cases "str_find CHR ''#'' u")
  case None
  then have "CHR ''#'' \<notin> set u" by (simp add: str_find_None_iff)
  then have all: "\<forall>x \<in> set u. x \<noteq> CHR ''#''" by auto
  have "canonicalize u = u" using None by (simp add: canonicalize_def)
  also have "u = takeWhile (\<lambda>x. x \<noteq> CHR ''#'') u"
    using all by (induction u) auto
  finally show ?thesis .
next
  case (Some i)
  then show ?thesis by (simp add: canonicalize_def str_find_Some_take)
qed

lemma takeWhile_takeWhile_conj:
  "takeWhile P (takeWhile Q xs) = takeWhile (\<lambda>x. P x \<and> Q x) xs"
  by (induction xs) auto

text \<open>
  C3, as the claim states it, fails: \<open>canonicalize\<close> does not lowercase the scheme or the
  host and keeps a default port. On an upper-case URL with port 80 it only cuts the
  fragment off.
\<close>

theorem canonicalize_keeps_case_and_port:
  "canonicalize ''HTTP://EXAMPLE.COM:80/p#f'' = ''HTTP://EXAMPLE.COM:80/p'' \<and>
   canonicalize ''HTTP://EXAMPLE.COM:80/p#f'' \<noteq> ''http://example.com/p''"
  by (simp add: canonicalize_def)

text \<open>
  C3, amended: \<open>canonicalize u\<close> strips the fragment, so the result holds no \<open>#\<close>, and it
  leaves the scheme, the host, the port and the path as they are in \<open>u\<close>: up to the first
  \<open>?\<close>, the result is \<open>u\<close> cut at its first \<open>#\<close>. Nothing is lowercased and no port is
  removed.
\<close>

theorem canonicalize_strips_fragment_only:
  "CHR ''#'' \<notin> set (canonicalize u) \<and>
   takeWhile (\<lambda>c. c \<noteq> CHR ''?'') (canonicalize u) =
     takeWhile (\<lambda>c. c \<noteq> CHR ''?'' \<and> c \<noteq> CHR ''#'') u"
proof
  show "CHR ''#'' \<notin> set (canonicalize u)"
    unfolding canonicalize_takeWhile by (auto dest: set_takeWhileD)
  show "takeWhile (\<lambda>c. c \<noteq> CHR ''?'') (canonicalize u) =
     takeWhile (\<lambda>c. c \<noteq> CHR ''?'' \<and> c \<noteq> CHR ''#'') u"
    unfolding canonicalize_takeWhile by (rule takeWhile_takeWhile_conj)
qed

section \<open>Properties of the Scheduler\<close>

lemma max_task_mem: "max_task t xs \<in> set (t # xs)"
  by (induction xs arbitrary: t) auto

lemma pq_top_mem: "q \<noteq> [] \<Longrightarrow> pq_top q \<in> set q"
  using max_task_mem [of "hd q" "tl q"] by (cases q) (auto simp: pq_top_def)

lemma set_pq_push: "set (pq_push t q) = insert t (set q)"
  by (simp add: pq_push_def)

lemma set_pq_pop: "set (pq_pop q) \<subseteq> set q"
  by (simp add: pq_pop_def set_remove1_subset)

lemma queue_valid_iff: "queue_valid s \<longleftrightarrow> (\<forall>t \<in> set (task_queue s). is_valid (url t))"
  by (simp add: queue_valid_def list_all_iff)

lemma add_url_invalid: "\<not> is_valid (canonicalize u) \<Longrightarrow> add_url s now u p = (False, s)"
  by (simp add: add_url_def)

lemma add_url_queue_valid: "queue_valid s \<Longrightarrow> queue_valid (snd (add_url s now u p))"
  by (auto simp: add_url_def queue_valid_iff set_pq_push Let_def)

lemma add_seed_urls_queue_valid: "queue_valid s \<Longrightarrow> queue_valid (snd (add_seed_urls s now us))"
proof (induction us arbitrary: s)
  case Nil
  then show ?case by simp
next
  case (Cons u us)
  obtain b s' where r: "add_url s now u 0 = (b, s')" by (cases "add_url s now u 0")
  with Cons.prems have v: "queue_valid s'" using add_url_queue_valid [of s now u 0] by simp
  show ?case
  proof (cases b)
    case True
    with r v Cons.IH show ?thesis by simp
  next
    case False
    with r v show ?thesis by simp
  qed
qed

lemma get_next_task_queue_valid:
  assumes "queue_valid s" and "get_next_task s now = Some (r, s')"
  shows "queue_valid s' \<and> (\<forall>t. r = Some t \<longrightarrow> is_valid (url t))"
proof (cases "task_queue s = []")
  case True
  with assms show ?thesis by (auto simp: get_next_task_def split: if_splits)
next
  case False
  then have top: "pq_top (task_queue s) \<in> set (task_queue s)" by (rule pq_top_mem)
  have pop: "\<forall>t \<in> set (pq_pop (task_queue s)). t \<in> set (task_queue s)"
    using set_pq_pop [of "task_queue s"] by auto
  from assms False top pop show ?thesis
    by (auto simp: get_next_task_def queue_valid_iff set_pq_push Let_def split: if_splits)
qed

lemma mark_completed_queue: "task_queue (mark_completed s u) = task_queue s"
  by (simp add: mark_completed_def Let_def)

lemma queue_valid_unchanged:
  "queue_valid (mark_completed s u) = queue_valid s"
  "queue_valid (start s) = queue_valid s"
  "queue_valid (stop s) = queue_valid s"
  "queue_valid (set_task_callback s) = queue_valid s"
  by (simp_all add: queue_valid_def mark_completed_queue start_def stop_def
      set_task_callback_def)

lemma mark_failed_queue_valid:
  "queue_valid s \<Longrightarrow> (w \<longrightarrow> is_valid u) \<Longrightarrow> queue_valid (mark_failed s now u w)"
  by (auto simp: mark_failed_def update_domain_backoff_def queue_valid_iff set_pq_push Let_def)

lemma run_ops_queue_valid:
  "queue_valid s \<Longrightarrow> retries_valid ops \<Longrightarrow> queue_valid (run_ops s ops)"
proof (induction s ops rule: run_ops.induct)
  case (4 s now ops)
  show ?case
  proof (cases "get_next_task s now")
    case None
    with 4 show ?thesis by simp
  next
    case (Some a)
    obtain r s' where a: "a = (r, s')" by (cases a)
    with Some "4.prems" have "queue_valid s'"
      using get_next_task_queue_valid [of s now r s'] by simp
    with 4 Some a show ?thesis by simp
  qed
qed (simp_all add: add_url_queue_valid add_seed_urls_queue_valid mark_failed_queue_valid
       queue_valid_unchanged)

lemma new_scheduler_queue_valid: "queue_valid (new_scheduler mr rb wt)"
  by (simp add: queue_valid_def new_scheduler_def)

lemmas sched_eval = new_scheduler_def add_url_def canonicalize_def is_valid_def
  strip_scheme_def starts_with_def is_space_def char_code_def get_next_task_def pq_push_def
  pq_top_def pq_pop_def can_fetch_domain_def mark_failed_def mark_completed_def
  update_domain_backoff_def match_domain_at_def milliseconds_def seconds_def Let_def
  queue_valid_def

text \<open>
  C1: \<open>mark_failed(u, true)\<close> is claimed to re-queue the task with its retry count
  raised by one and a delay that doubles with each retry, and to drop the task once the
  count exceeds \<open>max_retries\<close>. The code does not: it builds a fresh task whose
  \<open>retry_count\<close> is the constant 1. A URL is added, handed out and fails at time 0; two
  seconds later the re-queued task (\<open>retry_count = 1\<close>) is handed out and fails again.
  The task queued then has \<open>retry_count = 1\<close> again, not 2, and is due one backoff
  (1000 ms) later, not two. With \<open>max_retries = 0\<close> the task queued has
  \<open>retry_count = 1 > max_retries\<close>, yet it is kept and \<open>total_failed\<close> stays 0.
\<close>

theorem mark_failed_retry_count_stays_one:
  "map_option fst (get_next_task
      (run_ops (new_scheduler 3 1000 8)
         [AddUrl 0 ''https://a.test/'' 0, GetNextTask 0,
          MarkFailed 0 ''https://a.test/'' True]) 2000000000) =
     Some (Some \<lparr> url = ''https://a.test/'', priority = 0, retry_count = 1,
                   next_retry_time = 1000000000 \<rparr>) \<and>
   task_queue (run_ops (new_scheduler 3 1000 8)
         [AddUrl 0 ''https://a.test/'' 0, GetNextTask 0,
          MarkFailed 0 ''https://a.test/'' True, GetNextTask 2000000000,
          MarkFailed 2000000000 ''https://a.test/'' True]) =
     [\<lparr> url = ''https://a.test/'', priority = 0, retry_count = 1,
        next_retry_time = 3000000000 \<rparr>] \<and>
   task_queue (mark_failed (new_scheduler 0 1000 8) 0 ''https://a.test/'' True) =
     [\<lparr> url = ''https://a.test/'', priority = 0, retry_count = 1,
        next_retry_time = 1000000000 \<rparr>] \<and>
   total_failed (mark_failed (new_scheduler 0 1000 8) 0 ''https://a.test/'' True) = 0"
  by (simp add: sched_eval)

text \<open>
  C2: after \<open>mark_completed\<close> for a URL of host \<open>h\<close> the backoff entry of \<open>h\<close> is
  claimed to be \<open>now\<close> plus the politeness delay, so that no task of \<open>h\<close> is handed out
  before. The code sets the entry in \<open>mark_failed\<close> only. Two URLs of host \<open>a.test\<close>
  are added; the first is handed out and completed. The host has no backoff entry then,
  and 100 ms later \<open>get_next_task\<close> hands out the second URL of the same host.
\<close>

theorem mark_completed_sets_no_backoff:
  "domain_backoff (run_ops (new_scheduler 3 1000 8)
      [AddUrl 0 ''https://a.test/x'' 0, AddUrl 0 ''https://a.test/y'' 0, GetNextTask 0,
       MarkCompleted ''https://a.test/x'']) ''a.test'' = None \<and>
   map_option fst (get_next_task (run_ops (new_scheduler 3 1000 8)
      [AddUrl 0 ''https://a.test/x'' 0, AddUrl 0 ''https://a.test/y'' 0, GetNextTask 0,
       MarkCompleted ''https://a.test/x'']) 100000000) =
     Some (Some \<lparr> url = ''https://a.test/y'', priority = 0, retry_count = 0,
                   next_retry_time = 0 \<rparr>) \<and>
   extract_domain ''https://a.test/x'' = ''a.test'' \<and>
   extract_domain ''https://a.test/y'' = ''a.test''"
  by (simp add: sched_eval)

text \<open>
  C9, as the claim states it, fails in its second half: \<open>mark_failed\<close> queues the URL it
  is given without a check, so the frontier can hold a task whose URL does not match
  \<open>https?://\<close> followed by non-whitespace.
\<close>

theorem mark_failed_queues_unchecked_url:
  "\<not> queue_valid (run_ops (new_scheduler 3 1000 8) [MarkFailed 0 ''not a url'' True])"
  by (simp add: sched_eval)

text \<open>
  C9, amended: for every input string \<open>u\<close> whose canonical form the matcher of
  \<open>is_valid\<close> can take on the stack (\<open>regex_match_depth\<close> at most \<open>stack_chars\<close>),
  \<open>add_url u p\<close> returns false and leaves the scheduler, its queue included, as it is
  whenever the canonical form of \<open>u\<close> does not match the pattern. Consequently, in every
  run from a new scheduler in which \<open>mark_failed\<close> is asked to retry matching URLs only
  (as the crawl loop does, which passes the URL of a task it was handed), every task in
  the queue has a URL that matches the pattern.
\<close>

theorem add_url_rejects_invalid_and_queue_stays_valid:
  "(regex_match_depth (canonicalize u) \<le> stack_chars \<and> \<not> is_valid (canonicalize u) \<longrightarrow>
      add_url_within stack_chars s now u p = Some (False, s)) \<and>
   (retries_valid ops \<longrightarrow> queue_valid (run_ops (new_scheduler mr rb wt) ops))"
  by (simp add: add_url_within_def is_valid_within_def add_url_invalid run_ops_queue_valid
      new_scheduler_queue_valid)

theorem add_url_rejects_invalid_and_queue_stays_valid_witness:
  "regex_match_depth (canonicalize ''https://a.test/x y#z'') = 16 \<and>
   \<not> is_valid (canonicalize ''https://a.test/x y#z'') \<and>
   add_url_within 20000 (new_scheduler 3 1000 8) 0 ''https://a.test/x y#z'' 0 =
     Some (False, new_scheduler 3 1000 8) \<and>
   retries_valid [AddUrl 0 ''https://a.test/'' 0, AddUrl 0 ''not a url'' 0, GetNextTask 0,
      MarkFailed 0 ''https://a.test/'' True, GetNextTask 5] \<and>
   queue_valid (run_ops (new_scheduler 3 1000 8)
     [AddUrl 0 ''https://a.test/'' 0, AddUrl 0 ''not a url'' 0, GetNextTask 0,
      MarkFailed 0 ''https://a.test/'' True, GetNextTask 5])"
  using add_url_rejects_invalid_and_queue_stays_valid
    [of "''https://a.test/x y#z''" 20000 "new_scheduler 3 1000 8" 0 0
     "[AddUrl 0 ''https://a.test/'' 0, AddUrl 0 ''not a url'' 0, GetNextTask 0,
      MarkFailed 0 ''https://a.test/'' True, GetNextTask 5]" 3 1000 8]
  by (simp add: canonicalize_def is_valid_def strip_scheme_def starts_with_def is_space_def
      char_code_def regex_match_depth_def)

section \<open>Properties of the Deduplicator\<close>

lemmas dedup_defs = is_url_seen_def mark_url_seen_def is_content_seen_def
  mark_content_seen_def check_redis_url_def check_redis_content_def mark_redis_url_def
  mark_redis_content_def

text \<open>
  One call in the degraded state: it answers as the in-process sets do, updates them as
  the reference does, stays degraded and sends nothing.
\<close>

lemma degraded_step:
  assumes "\<not> redis_available d"
  shows "fst (dedup_step d x r) = fst (local_step (local_sets d) x) \<and>
         local_sets (snd (dedup_step d x r)) = snd (local_step (local_sets d) x) \<and>
         \<not> redis_available (snd (dedup_step d x r)) \<and>
         redis_sent (snd (dedup_step d x r)) = redis_sent d"
  using assms by (cases x) (simp_all add: dedup_defs local_sets_def content_key_def Let_def)

text \<open>One call that meets the I/O error: the same answer and update, and the state is degraded.\<close>

lemma error_step:
  assumes "redis_available d" and "redis_context d"
  shows "fst (dedup_step d x NullReply) = fst (local_step (local_sets d) x) \<and>
         local_sets (snd (dedup_step d x NullReply)) = snd (local_step (local_sets d) x) \<and>
         \<not> redis_available (snd (dedup_step d x NullReply))"
  using assms by (cases x) (simp_all add: dedup_defs local_sets_def content_key_def Let_def)

lemma degraded_run:
  "\<not> redis_available d \<Longrightarrow>
     fst (dedup_run d xs) = local_answers (local_sets d) (map fst xs) \<and>
     \<not> redis_available (snd (dedup_run d xs)) \<and>
     redis_sent (snd (dedup_run d xs)) = redis_sent d"
proof (induction xs arbitrary: d)
  case Nil
  then show ?case by simp
next
  case (Cons p xs)
  obtain x r where p: "p = (x, r)" by (cases p)
  obtain a d' where st: "dedup_step d x r = (a, d')" by (cases "dedup_step d x r")
  obtain b l' where ls: "local_step (local_sets d) x = (b, l')"
    by (cases "local_step (local_sets d) x")
  from degraded_step [OF Cons.prems, of x r] st ls
  have a: "a = b" and l: "local_sets d' = l'" and dg: "\<not> redis_available d'"
    and sent: "redis_sent d' = redis_sent d" by simp_all
  from Cons.IH [OF dg] l sent
  have "fst (dedup_run d' xs) = local_answers l' (map fst xs) \<and>
     \<not> redis_available (snd (dedup_run d' xs)) \<and>
     redis_sent (snd (dedup_run d' xs)) = redis_sent d" by simp
  with p st ls a show ?case by (auto split: prod.splits)
qed

lemma local_answers_snoc:
  "local_answers l (xs @ [x]) =
     local_answers l xs @ [fst (local_step (fold (\<lambda>y l. snd (local_step l y)) xs l) x)]"
  by (induction xs arbitrary: l) (auto split: prod.splits)

lemma local_content_grows:
  "k \<in> snd l \<Longrightarrow> k \<in> snd (fold (\<lambda>y l. snd (local_step l y)) xs l)"
proof (induction xs arbitrary: l)
  case Nil
  then show ?case by simp
next
  case (Cons x xs)
  obtain us cs where l: "l = (us, cs)" by (cases l)
  with Cons.prems have "k \<in> snd (snd (local_step l x))" by (cases x) auto
  then show ?case using Cons.IH by simp
qed

text \<open>
  C4: let a deduplicator with a Redis connection (\<open>redis_available\<close>, context set) make a
  call \<open>x\<close> that meets an I/O error (the null reply), followed by any calls \<open>xs\<close> of
  \<open>is_url_seen\<close>, \<open>mark_url_seen\<close>, \<open>is_content_seen\<close>, \<open>mark_content_seen\<close>, whatever the
  remote tier would reply to them. Then every answer of the run, that of the failing call
  included, is the answer of the in-process sets alone (no error reaches the caller); the
  run ends degraded; and the commands sent are those of the failing call: no later call
  asks the remote tier.
\<close>

theorem dedup_degrades_on_remote_error:
  assumes "redis_available d" and "redis_context d"
  shows "fst (dedup_run d ((x, NullReply) # xs)) =
           local_answers (local_sets d) (x # map fst xs) \<and>
         \<not> redis_available (snd (dedup_run d ((x, NullReply) # xs))) \<and>
         redis_sent (snd (dedup_run d ((x, NullReply) # xs))) =
           redis_sent (snd (dedup_step d x NullReply))"
proof -
  obtain a d' where st: "dedup_step d x NullReply = (a, d')"
    by (cases "dedup_step d x NullReply")
  obtain b l' where ls: "local_step (local_sets d) x = (b, l')"
    by (cases "local_step (local_sets d) x")
  from error_step [OF assms, of x] st ls
  have a: "a = b" and l: "local_sets d' = l'" and dg: "\<not> redis_available d'" by simp_all
  from degraded_run [OF dg, of xs] l st ls a show ?thesis by (auto split: prod.splits)
qed

theorem dedup_degrades_on_remote_error_witness:
  "redis_available (snd (init_redis new_deduplicator True)) \<and>
   redis_context (snd (init_redis new_deduplicator True)) \<and>
   fst (dedup_run (snd (init_redis new_deduplicator True))
      [(IsUrlSeen ''https://a.test/'', NullReply), (MarkUrlSeen ''https://a.test/'', Reply 1),
       (IsUrlSeen ''https://a.test/'', Reply 0), (IsContentSeen ''42'', Reply 1)]) =
     [Some False, None, Some True, Some False] \<and>
   redis_sent (snd (dedup_run (snd (init_redis new_deduplicator True))
      [(IsUrlSeen ''https://a.test/'', NullReply), (MarkUrlSeen ''https://a.test/'', Reply 1),
       (IsUrlSeen ''https://a.test/'', Reply 0), (IsContentSeen ''42'', Reply 1)])) =
     redis_sent (snd (dedup_step (snd (init_redis new_deduplicator True))
       (IsUrlSeen ''https://a.test/'') NullReply))"
  using dedup_degrades_on_remote_error [of "snd (init_redis new_deduplicator True)"
    "IsUrlSeen ''https://a.test/''"
    "[(MarkUrlSeen ''https://a.test/'', Reply 1),
       (IsUrlSeen ''https://a.test/'', Reply 0), (IsContentSeen ''42'', Reply 1)]"]
  by (simp add: init_redis_def new_deduplicator_def local_sets_def)

text \<open>
  C10: with the remote tier unavailable (so that the in-process sets are used), after
  \<open>mark_content_seen s i\<close> every later \<open>is_content_seen s\<close> answers true, whatever \<open>s\<close> is
  and whatever calls come in between: both operations turn \<open>s\<close> into the same 64-bit key,
  the number \<open>stoull\<close> reads or, when it throws, the hash of the string.
\<close>

theorem content_marked_is_seen:
  assumes "\<not> redis_available d"
  shows "last (fst (dedup_run d
           ((MarkContentSeen s i, r1) # xs @ [(IsContentSeen s, r2)]))) = Some True"
proof -
  let ?run = "(MarkContentSeen s i, r1) # xs @ [(IsContentSeen s, r2)]"
  let ?l1 = "(local_url_set d, insert (content_key s) (local_content_set d))"
  have "fst (dedup_run d ?run) = local_answers (local_sets d) (map fst ?run)"
    using degraded_run [OF assms, of ?run] by simp
  also have "\<dots> = None # local_answers ?l1 (map fst xs @ [IsContentSeen s])"
    by (simp add: local_sets_def)
  finally have "last (fst (dedup_run d ?run)) =
      fst (local_step (fold (\<lambda>y l. snd (local_step l y)) (map fst xs) ?l1) (IsContentSeen s))"
    by (simp add: local_answers_snoc)
  moreover have "content_key s \<in> snd (fold (\<lambda>y l. snd (local_step l y)) (map fst xs) ?l1)"
    by (rule local_content_grows) simp
  ultimately show ?thesis
    by (cases "fold (\<lambda>y l. snd (local_step l y)) (map fst xs) ?l1") simp
qed

theorem content_marked_is_seen_witness:
  "\<not> redis_available (enable_local_fallback new_deduplicator True) \<and>
   stoull ''abc'' = None \<and>
   last (fst (dedup_run (enable_local_fallback new_deduplicator True)
     ((MarkContentSeen ''abc'' ''1'', Reply 0) # [(IsUrlSeen ''https://a.test/'', Reply 0)] @
      [(IsContentSeen ''abc'', Reply 0)]))) = Some True \<and>
   stoull ''42'' = Some 42 \<and>
   last (fst (dedup_run (enable_local_fallback new_deduplicator True)
     ((MarkContentSeen ''42'' ''2'', Reply 0) # [] @ [(IsContentSeen ''42'', Reply 0)]))) =
     Some True"
  using content_marked_is_seen [of "enable_local_fallback new_deduplicator True" "''abc''"
      "''1''" "Reply 0" "[(IsUrlSeen ''https://a.test/'', Reply 0)]" "Reply 0"]
    content_marked_is_seen [of "enable_local_fallback new_deduplicator True" "''42''"
      "''2''" "Reply 0" "[]" "Reply 0"]
  by (simp add: enable_local_fallback_def new_deduplicator_def stoull_def is_space_def
      is_digit_def char_code_def digits_value_def)

section \<open>Properties of the Fetcher\<close>

lemma fetch_impl_redirect:
  assumes "redirects_to (net u) v" and "rc \<le> max_redirects f"
  shows "fetch_impl f net u rc =
     (fetch_impl f net v (rc + 1))\<lparr> redirects := v # redirects (fetch_impl f net v (rc + 1)) \<rparr>"
proof -
  from assms(1) obtain code eff ct body where
    n: "net u = HttpResponse code eff ct body (Some v)" and c: "300 \<le> code" "code < 400"
    by (auto simp: redirects_to_def split: curl_response.splits option.splits)
  from assms(2) have le: "\<not> rc > max_redirects f" by simp
  show ?thesis
    by (subst fetch_impl.simps) (use n c le in \<open>simp add: Let_def\<close>)
qed

lemma fetch_impl_ok:
  assumes "responds_ok (net u) b" and "rc \<le> max_redirects f"
  shows "success (fetch_impl f net u rc) \<and> content (fetch_impl f net u rc) = b \<and>
         redirects (fetch_impl f net u rc) = []"
proof -
  from assms(1) obtain code eff ct loc where
    n: "net u = HttpResponse code eff ct b loc" and c: "200 \<le> code" "code < 300"
    by (auto simp: responds_ok_def split: curl_response.splits)
  from assms(2) have le: "\<not> rc > max_redirects f" by simp
  have "fetch_impl f net u rc =
     default_result\<lparr> http_status := code, final_url := string_or_empty eff,
        content_type := string_or_empty ct, success := True, content := b \<rparr>"
    by (subst fetch_impl.simps) (use n c le in \<open>simp add: Let_def\<close>)
  then show ?thesis by (simp add: default_result_def)
qed


lemma fetch_impl_too_many:
  assumes "rc > max_redirects f"
  shows "fetch_impl f net u rc =
     default_result\<lparr> success := False, error_message := ''Too many redirects'' \<rparr>"
  using assms by (subst fetch_impl.simps) simp

lemma fetch_impl_chain:
  "redirect_chain net u vs \<Longrightarrow> rc + int (length vs) \<le> max_redirects f + 1 \<Longrightarrow>
   fetch_impl f net u rc =
     (fetch_impl f net (last (u # vs)) (rc + int (length vs)))
       \<lparr> redirects := vs @ redirects (fetch_impl f net (last (u # vs)) (rc + int (length vs))) \<rparr>"
proof (induction vs arbitrary: u rc)
  case Nil
  then show ?case by simp
next
  case (Cons v vs)
  from Cons.prems have r: "redirects_to (net u) v" and c: "redirect_chain net v vs"
    and le: "rc \<le> max_redirects f" and le': "(rc + 1) + int (length vs) \<le> max_redirects f + 1"
    by simp_all
  have eq: "rc + 1 + int (length vs) = rc + int (length (v # vs))" by simp
  have step: "fetch_impl f net u rc =
     (fetch_impl f net v (rc + 1))\<lparr> redirects := v # redirects (fetch_impl f net v (rc + 1)) \<rparr>"
    using r le by (rule fetch_impl_redirect)
  show ?case
    unfolding step Cons.IH [OF c le'] eq by simp
qed

lemma fetch_fields:
  "success (fst (fetch f net el u)) = success (fetch_impl (f\<lparr> total_fetches := total_fetches f + 1 \<rparr>) net u 0)"
  "content (fst (fetch f net el u)) = content (fetch_impl (f\<lparr> total_fetches := total_fetches f + 1 \<rparr>) net u 0)"
  "redirects (fst (fetch f net el u)) = redirects (fetch_impl (f\<lparr> total_fetches := total_fetches f + 1 \<rparr>) net u 0)"
  "error_message (fst (fetch f net el u)) = error_message (fetch_impl (f\<lparr> total_fetches := total_fetches f + 1 \<rparr>) net u 0)"
  by (simp_all add: fetch_def Let_def)


lemma fetch_impl_exact_chain:
  assumes "redirect_chain net u vs" and "int (length vs) = max_redirects f"
    and "responds_ok (net (last (u # vs))) b"
  shows "success (fetch_impl f net u 0) \<and> content (fetch_impl f net u 0) = b \<and>
         redirects (fetch_impl f net u 0) = vs"
proof -
  let ?r = "fetch_impl f net (last (u # vs)) (0 + int (length vs))"
  from assms(2) have "0 + int (length vs) \<le> max_redirects f + 1" by simp
  with assms(1) have ch: "fetch_impl f net u 0 = ?r\<lparr> redirects := vs @ redirects ?r \<rparr>"
    by (rule fetch_impl_chain)
  from assms(2) have "0 + int (length vs) \<le> max_redirects f" by simp
  with assms(3) have ok: "success ?r \<and> content ?r = b \<and> redirects ?r = []"
    by (rule fetch_impl_ok)
  show ?thesis unfolding ch using ok by simp
qed

lemma fetch_impl_long_chain:
  assumes "redirect_chain net u vs" and "int (length vs) = max_redirects f + 1"
  shows "\<not> success (fetch_impl f net u 0) \<and>
         error_message (fetch_impl f net u 0) = ''Too many redirects''"
proof -
  let ?r = "fetch_impl f net (last (u # vs)) (0 + int (length vs))"
  from assms(2) have "0 + int (length vs) \<le> max_redirects f + 1" by simp
  with assms(1) have ch: "fetch_impl f net u 0 = ?r\<lparr> redirects := vs @ redirects ?r \<rparr>"
    by (rule fetch_impl_chain)
  from assms(2) have "0 + int (length vs) > max_redirects f" by simp
  then have tm: "?r = default_result\<lparr> success := False, error_message := ''Too many redirects'' \<rparr>"
    by (rule fetch_impl_too_many)
  show ?thesis unfolding ch tm by (simp add: default_result_def)
qed

text \<open>
  C5: for every \<open>max_redirects\<close> and every network: when the URL fetched starts a
  redirect chain of exactly \<open>max_redirects\<close> redirects that ends in a 2xx response, \<open>fetch\<close>
  succeeds with that response's body and the chain as \<open>redirects\<close>; when the chain has
  \<open>max_redirects + 1\<close> redirects, \<open>fetch\<close> returns a result with \<open>success = false\<close> and
  the error message \<open>Too many redirects\<close>. Every failure is such a result value: \<open>fetch\<close>
  is a total function into \<open>FetchResult\<close>.
\<close>

theorem fetch_redirect_bound:
  "(redirect_chain net u vs \<and> int (length vs) = max_redirects f \<and>
      responds_ok (net (last (u # vs))) b \<longrightarrow>
      success (fst (fetch f net el u)) \<and> content (fst (fetch f net el u)) = b \<and>
      redirects (fst (fetch f net el u)) = vs) \<and>
   (redirect_chain net u vs \<and> int (length vs) = max_redirects f + 1 \<longrightarrow>
      \<not> success (fst (fetch f net el u)) \<and>
      error_message (fst (fetch f net el u)) = ''Too many redirects'')"
proof (intro conjI impI)
  let ?f = "f\<lparr> total_fetches := total_fetches f + 1 \<rparr>"
  assume a: "redirect_chain net u vs \<and> int (length vs) = max_redirects f \<and>
      responds_ok (net (last (u # vs))) b"
  then have "success (fetch_impl ?f net u 0) \<and> content (fetch_impl ?f net u 0) = b \<and>
         redirects (fetch_impl ?f net u 0) = vs"
    using fetch_impl_exact_chain [of net u vs ?f b] by simp
  then show "success (fst (fetch f net el u))" "content (fst (fetch f net el u)) = b"
    "redirects (fst (fetch f net el u)) = vs"
    by (simp_all add: fetch_fields)
next
  let ?f = "f\<lparr> total_fetches := total_fetches f + 1 \<rparr>"
  assume a: "redirect_chain net u vs \<and> int (length vs) = max_redirects f + 1"
  then have "\<not> success (fetch_impl ?f net u 0) \<and>
         error_message (fetch_impl ?f net u 0) = ''Too many redirects''"
    using fetch_impl_long_chain [of net u vs ?f] by simp
  then show "\<not> success (fst (fetch f net el u))"
    "error_message (fst (fetch f net el u)) = ''Too many redirects''"
    by (simp_all add: fetch_fields)
qed


lemma example_net_simps:
  "example_net ''http://a.test/0'' = HttpResponse 301 None None [] (Some ''http://a.test/1'')"
  "example_net ''http://a.test/1'' = HttpResponse 302 None None [] (Some ''http://a.test/2'')"
  "example_net ''http://a.test/2'' = HttpResponse 200 (Some ''http://a.test/2'') (Some ''text/html'') ''hello'' None"
  by (simp_all add: example_net_def)

theorem fetch_redirect_bound_witness:
  "redirect_chain example_net ''http://a.test/0'' [''http://a.test/1'', ''http://a.test/2''] \<and>
   responds_ok (example_net ''http://a.test/2'') ''hello'' \<and>
   success (fst (fetch (new_fetcher 5000 10000 2 ''ua'') example_net 7 ''http://a.test/0'')) \<and>
   content (fst (fetch (new_fetcher 5000 10000 2 ''ua'') example_net 7 ''http://a.test/0'')) = ''hello'' \<and>
   redirects (fst (fetch (new_fetcher 5000 10000 2 ''ua'') example_net 7 ''http://a.test/0'')) =
     [''http://a.test/1'', ''http://a.test/2''] \<and>
   \<not> success (fst (fetch (new_fetcher 5000 10000 1 ''ua'') example_net 7 ''http://a.test/0'')) \<and>
   error_message (fst (fetch (new_fetcher 5000 10000 1 ''ua'') example_net 7 ''http://a.test/0'')) =
     ''Too many redirects''"
  using fetch_redirect_bound [of example_net "''http://a.test/0''" "[''http://a.test/1'', ''http://a.test/2'']"
              "new_fetcher 5000 10000 2 ''ua''" "''hello''" 7]
        fetch_redirect_bound [of example_net "''http://a.test/0''" "[''http://a.test/1'', ''http://a.test/2'']"
              "new_fetcher 5000 10000 1 ''ua''" "''hello''" 7]
  by (simp add: example_net_simps redirects_to_def responds_ok_def new_fetcher_def)

section \<open>Properties of the Parser\<close>

lemma positions_push_keys:
  "fst ` set (positions_push key i m) = insert key (fst ` set m)"
  by (induction key i m rule: positions_push.induct) (simp_all add: insert_commute)

lemma positions_push_ok:
  assumes "positions_ok toks i m" and "i < length toks" and "normalize_token (toks ! i) = key"
  shows "positions_ok toks (Suc i) (positions_push key i m)"
  using assms
proof (induction m)
  case Nil
  then show ?case by (simp add: positions_ok_def)
next
  case (Cons e m)
  obtain k ps where e: "e = (k, ps)" by (cases e)
  from Cons.prems(1) have tl: "positions_ok toks i m"
    by (simp add: positions_ok_def)
  show ?case
  proof (cases "k = key")
    case True
    with Cons.prems e show ?thesis
      by (auto simp: positions_ok_def sorted_wrt_append less_Suc_eq)
  next
    case False
    from Cons.IH [OF tl Cons.prems(2,3)]
    have ih: "positions_ok toks (Suc i) (positions_push key i m)" .
    have keys: "k \<notin> fst ` set (positions_push key i m)"
      using Cons.prems(1) e False by (simp add: positions_push_keys positions_ok_def)
    from Cons.prems(1) e have hd_ok: "ps \<noteq> [] \<and> sorted_wrt (<) ps \<and>
         (\<forall>p \<in> set ps. p < Suc i \<and> p < length toks \<and> normalize_token (toks ! p) = k)"
      by (auto simp: positions_ok_def less_Suc_eq)
    from ih keys hd_ok e False show ?thesis
      by (simp add: positions_ok_def)
  qed
qed

lemma positions_ok_mono: "positions_ok toks i m \<Longrightarrow> i \<le> j \<Longrightarrow> positions_ok toks j m"
  by (fastforce simp: positions_ok_def)

lemma build_term_positions_ok:
  "positions_ok all i m \<Longrightarrow> drop i all = toks \<Longrightarrow>
   positions_ok all (length all) (build_term_positions toks i m)"
proof (induction toks arbitrary: i m)
  case Nil
  then have "length all \<le> i" by simp
  with Nil show ?case
    by (auto simp: positions_ok_def)
next
  case (Cons tok toks)
  from Cons.prems(2) have i: "i < length all"
    by (metis drop_all list.distinct(1) not_le)
  from Cons.prems(2) i have tok: "all ! i = tok" and rest: "drop (Suc i) all = toks"
    by (metis Cons_nth_drop_Suc list.inject)+
  show ?case
  proof (cases "normalize_token tok = []")
    case True
    from Cons.prems(1) have "positions_ok all (Suc i) m" by (rule positions_ok_mono) simp
    from Cons.IH [OF this rest] True show ?thesis by simp
  next
    case False
    from Cons.prems(1) i tok have "positions_ok all (Suc i) (positions_push (normalize_token tok) i m)"
      by (intro positions_push_ok) simp_all
    from Cons.IH [OF this rest] False show ?thesis by simp
  qed
qed

lemma positions_push_keeps:
  "(t, ps) \<in> set m \<Longrightarrow> \<exists>ps'. (t, ps') \<in> set (positions_push key i m) \<and> set ps \<subseteq> set ps'"
  by (induction key i m rule: positions_push.induct) auto

lemma positions_push_new: "\<exists>ps. (key, ps) \<in> set (positions_push key i m) \<and> i \<in> set ps"
  by (induction key i m rule: positions_push.induct) auto

lemma positions_push_cover:
  assumes "positions_cover toks i m" and "normalize_token (toks ! i) = key"
  shows "positions_cover toks (Suc i) (positions_push key i m)"
  unfolding positions_cover_def
proof (intro allI impI)
  fix j
  assume j: "j < Suc i" and ne: "j < length toks \<and> normalize_token (toks ! j) \<noteq> []"
  show "\<exists>ps. (normalize_token (toks ! j), ps) \<in> set (positions_push key i m) \<and> j \<in> set ps"
  proof (cases "j = i")
    case True
    with assms(2) positions_push_new [of key i m] show ?thesis by simp
  next
    case False
    with j have "j < i" by simp
    with assms(1) ne obtain ps where "(normalize_token (toks ! j), ps) \<in> set m" "j \<in> set ps"
      by (auto simp: positions_cover_def)
    with positions_push_keeps [of "normalize_token (toks ! j)" ps m key i] show ?thesis by auto
  qed
qed

lemma build_term_positions_cover:
  "positions_cover all i m \<Longrightarrow> drop i all = toks \<Longrightarrow>
   positions_cover all (length all) (build_term_positions toks i m)"
proof (induction toks arbitrary: i m)
  case Nil
  then have "length all \<le> i" by simp
  with Nil show ?case by (auto simp: positions_cover_def)
next
  case (Cons tok toks)
  from Cons.prems(2) have i: "i < length all"
    by (metis drop_all list.distinct(1) not_le)
  from Cons.prems(2) i have tok: "all ! i = tok" and rest: "drop (Suc i) all = toks"
    by (metis Cons_nth_drop_Suc list.inject)+
  show ?case
  proof (cases "normalize_token tok = []")
    case True
    from Cons.prems(1) True tok have "positions_cover all (Suc i) m"
      by (auto simp: positions_cover_def less_Suc_eq)
    from Cons.IH [OF this rest] True show ?thesis by simp
  next
    case False
    from Cons.prems(1) tok have "positions_cover all (Suc i) (positions_push (normalize_token tok) i m)"
      by (intro positions_push_cover) simp_all
    from Cons.IH [OF this rest] False show ?thesis by simp
  qed
qed

lemma parse_positions_cover:
  "positions_cover (tokens (parse gp u html)) (length (tokens (parse gp u html)))
     (term_positions (parse gp u html))"
proof -
  let ?toks = "tokenize (extract_text gp html)"
  have "positions_cover ?toks 0 []" by (simp add: positions_cover_def)
  then have "positions_cover ?toks (length ?toks) (build_term_positions ?toks 0 [])"
    by (rule build_term_positions_cover) simp
  then show ?thesis by (simp add: parse_def Let_def)
qed

lemma parse_term_positions_distinct: "distinct (map fst (term_positions (parse gp u html)))"
proof -
  let ?toks = "tokenize (extract_text gp html)"
  have "positions_ok ?toks 0 []" by (simp add: positions_ok_def)
  then have "positions_ok ?toks (length ?toks) (build_term_positions ?toks 0 [])"
    by (rule build_term_positions_ok) simp
  then show ?thesis by (simp add: parse_def Let_def positions_ok_def)
qed

lemma example_page_tokens:
  "tokens (parse example_page ''https://a.test/'' ''<html>'') =
     [''Cat'', ''___'', ''dog'', ''cat'']"
  by (simp add: parse_def example_page_def extract_text_def tokenize_def is_word_char_def
       is_alnum_def
       is_upper_def is_lower_def is_digit_def char_code_def Let_def)

lemma example_page_term_positions:
  "term_positions (parse example_page ''https://a.test/'' ''<html>'') =
     [(''cat'', [0, 3]), (''dog'', [2])]"
  by (simp add: parse_def example_page_def extract_text_def tokenize_def is_word_char_def
       is_alnum_def is_upper_def is_lower_def is_digit_def char_code_def Let_def
       normalize_token_def to_lower_def char_of_def bit_Suc_0_iff)


text \<open>
  C8: in every document \<open>parse\<close> produces, each position list of \<open>term_positions\<close> is
  strictly increasing, and each of its positions is an index into the raw token list
  \<open>tokens\<close> (so it lies in \<open>0..N-1\<close> for \<open>N\<close> raw tokens), namely the index of a token
  whose normal form is the term. The gaps are where normalization dropped a token, and
  only there: the index of every token whose normal form is not empty is in the list of
  that normal form.
\<close>

theorem parse_positions_increasing:
  "(\<forall>(t, ps) \<in> set (term_positions (parse gp u html)).
      sorted_wrt (<) ps \<and>
      (\<forall>p \<in> set ps. p < length (tokens (parse gp u html)) \<and>
          normalize_token (tokens (parse gp u html) ! p) = t)) \<and>
   (\<forall>i < length (tokens (parse gp u html)).
      normalize_token (tokens (parse gp u html) ! i) \<noteq> [] \<longrightarrow>
      (\<exists>ps. (normalize_token (tokens (parse gp u html) ! i), ps)
              \<in> set (term_positions (parse gp u html)) \<and> i \<in> set ps))"
proof
  let ?toks = "tokenize (extract_text gp html)"
  have "positions_ok ?toks 0 []" by (simp add: positions_ok_def)
  then have "positions_ok ?toks (length ?toks) (build_term_positions ?toks 0 [])"
    by (rule build_term_positions_ok) simp
  then show "\<forall>(t, ps) \<in> set (term_positions (parse gp u html)).
      sorted_wrt (<) ps \<and>
      (\<forall>p \<in> set ps. p < length (tokens (parse gp u html)) \<and>
          normalize_token (tokens (parse gp u html) ! p) = t)"
    by (auto simp: parse_def Let_def positions_ok_def)
  show "\<forall>i < length (tokens (parse gp u html)).
      normalize_token (tokens (parse gp u html) ! i) \<noteq> [] \<longrightarrow>
      (\<exists>ps. (normalize_token (tokens (parse gp u html) ! i), ps)
              \<in> set (term_positions (parse gp u html)) \<and> i \<in> set ps)"
    using parse_positions_cover [of gp u html] by (simp add: positions_cover_def)
qed

theorem parse_positions_increasing_witness:
  "(''cat'', [0, 3]) \<in> set (term_positions (parse example_page ''https://a.test/'' ''<html>'')) \<and>
   tokens (parse example_page ''https://a.test/'' ''<html>'') =
     [''Cat'', ''___'', ''dog'', ''cat''] \<and>
   sorted_wrt (<) [0, 3 :: nat] \<and>
   3 < length (tokens (parse example_page ''https://a.test/'' ''<html>'')) \<and>
   normalize_token (tokens (parse example_page ''https://a.test/'' ''<html>'') ! 3) = ''cat''"
proof -
  let ?d = "parse example_page ''https://a.test/'' ''<html>''"
  have tp: "term_positions ?d = [(''cat'', [0, 3]), (''dog'', [2])]"
    by (rule example_page_term_positions)
  have tk: "tokens ?d = [''Cat'', ''___'', ''dog'', ''cat'']"
    by (rule example_page_tokens)
  from parse_positions_increasing [of example_page "''https://a.test/''" "''<html>''"] tp
  have "sorted_wrt (<) [0, 3 :: nat] \<and>
        3 < length (tokens ?d) \<and> normalize_token (tokens ?d ! 3) = ''cat''"
    by simp
  with tp tk show ?thesis by simp
qed

section \<open>Properties of the Indexer\<close>

lemma unat_succ: "unat (n :: 64 word) + 1 < 2 ^ 64 \<Longrightarrow> unat (n + 1) = unat n + 1"
  using unat_add_lem [of n 1] by simp

lemma word_less_succ: "unat (n :: 64 word) + 1 < 2 ^ 64 \<Longrightarrow> n < n + 1"
  by (simp add: word_less_nat_alt unat_succ)

lemma index_terms_ids:
  "distinct (map fst tp) \<Longrightarrow>
   posting_ids (fst (index_terms did tp (inverted, n))) t =
     posting_ids inverted t @ (if t \<noteq> [] \<and> t \<in> fst ` set tp then [did] else [])"
proof (induction tp arbitrary: inverted n)
  case Nil
  then show ?case by simp
next
  case (Cons e tp)
  obtain k ps where e: "e = (k, ps)" by (cases e)
  from Cons.prems e have d: "distinct (map fst tp)" and nk: "k \<notin> fst ` set tp" by simp_all
  show ?case
  proof (cases "k = []")
    case True
    with e Cons.IH [OF d, of inverted n] show ?thesis by auto
  next
    case False
    let ?p = "\<lparr> p_doc_id = did, positions = ps, tf = real (length ps), idf = 0, bm25_score = 0 \<rparr>"
    let ?inv = "inverted(k \<mapsto> (case inverted k of None \<Rightarrow> [] | Some l \<Rightarrow> l) @ [?p])"
    have step: "index_terms did (e # tp) (inverted, n) = index_terms did tp (?inv, n + length ps)"
      using e False by (simp add: Let_def)
    have ids: "posting_ids ?inv t = posting_ids inverted t @ (if t = k then [did] else [])"
      by (simp add: posting_ids_def split: option.splits)
    show ?thesis
      unfolding step Cons.IH [OF d, of ?inv "n + length ps"] ids
      using e False nk by auto
  qed
qed

lemma index_document_next:
  "next_doc_id (snd (index_document stod ix d md)) = next_doc_id ix + 1"
  by (simp add: index_document_def Let_def flush_segment_def split: option.splits prod.splits)

lemma index_document_ids:
  assumes "distinct (map fst (term_positions d))"
  shows "posting_ids (inverted_index (snd (index_document stod ix d md))) t =
           posting_ids (inverted_index ix) t \<or>
         posting_ids (inverted_index (snd (index_document stod ix d md))) t =
           posting_ids (inverted_index ix) t @ [next_doc_id ix]"
proof -
  obtain inverted n where it:
    "index_terms (next_doc_id ix) (term_positions d) (inverted_index ix, 0) = (inverted, n)"
    by (cases "index_terms (next_doc_id ix) (term_positions d) (inverted_index ix, 0)")
  from index_terms_ids [OF assms, of "next_doc_id ix" "inverted_index ix" 0 t] it
  have "posting_ids inverted t = posting_ids (inverted_index ix) t \<or>
        posting_ids inverted t = posting_ids (inverted_index ix) t @ [next_doc_id ix]"
    by (simp split: if_splits)
  moreover have "inverted_index (snd (index_document stod ix d md)) = inverted \<or>
     inverted_index (snd (index_document stod ix d md)) = inverted_index ix"
    using it
    by (simp add: index_document_def Let_def flush_segment_def split: option.splits)
  ultimately show ?thesis by auto
qed

lemma index_document_sorted:
  assumes "postings_sorted ix" and "distinct (map fst (term_positions d))"
    and "unat (next_doc_id ix) + 1 < 2 ^ 64"
  shows "postings_sorted (snd (index_document stod ix d md))"
proof -
  let ?ix = "snd (index_document stod ix d md)"
  have lt: "next_doc_id ix < next_doc_id ?ix"
    using assms(3) by (simp add: index_document_next word_less_succ)
  show ?thesis
    unfolding postings_sorted_def
  proof
    fix t
    from assms(1) have old: "sorted_wrt (<) (posting_ids (inverted_index ix) t)"
      and bound: "\<forall>i \<in> set (posting_ids (inverted_index ix) t). i < next_doc_id ix"
      by (simp_all add: postings_sorted_def)
    from index_document_ids [OF assms(2), of stod ix md t]
    show "sorted_wrt (<) (posting_ids (inverted_index ?ix) t) \<and>
          (\<forall>i \<in> set (posting_ids (inverted_index ?ix) t). i < next_doc_id ?ix)"
    proof
      assume "posting_ids (inverted_index ?ix) t = posting_ids (inverted_index ix) t"
      with old bound lt show ?thesis by auto
    next
      assume "posting_ids (inverted_index ?ix) t =
        posting_ids (inverted_index ix) t @ [next_doc_id ix]"
      with old bound lt show ?thesis by (auto simp: sorted_wrt_append)
    qed
  qed
qed

lemma index_documents_inv:
  "postings_sorted ix \<Longrightarrow>
   \<forall>(d, md) \<in> set ds. distinct (map fst (term_positions d)) \<Longrightarrow>
   unat (next_doc_id ix) + length ds < 2 ^ 64 \<Longrightarrow>
   sorted_wrt (<) (fst (index_documents stod ix ds)) \<and>
   (\<forall>i \<in> set (fst (index_documents stod ix ds)). next_doc_id ix \<le> i) \<and>
   postings_sorted (snd (index_documents stod ix ds))"
proof (induction ds arbitrary: ix)
  case Nil
  then show ?case by simp
next
  case (Cons e ds)
  obtain d md where e: "e = (d, md)" by (cases e)
  let ?ix = "snd (index_document stod ix d md)"
  from Cons.prems e have dist: "distinct (map fst (term_positions d))"
    and rest: "\<forall>(d, md) \<in> set ds. distinct (map fst (term_positions d))"
    and one: "unat (next_doc_id ix) + 1 < 2 ^ 64" by auto
  have nxt: "next_doc_id ?ix = next_doc_id ix + 1" by (rule index_document_next)
  have lt: "next_doc_id ix < next_doc_id ?ix" using one by (simp add: nxt word_less_succ)
  have "unat (next_doc_id ?ix) = unat (next_doc_id ix) + 1" using one by (simp add: nxt unat_succ)
  with Cons.prems(3) have bound: "unat (next_doc_id ?ix) + length ds < 2 ^ 64" by simp
  have "postings_sorted ?ix" using Cons.prems(1) dist one by (rule index_document_sorted)
  from Cons.IH [OF this rest bound]
  have ih: "sorted_wrt (<) (fst (index_documents stod ?ix ds))"
    "\<forall>i \<in> set (fst (index_documents stod ?ix ds)). next_doc_id ?ix \<le> i"
    "postings_sorted (snd (index_documents stod ?ix ds))" by simp_all
  from ih(2) lt have gt: "\<forall>i \<in> set (fst (index_documents stod ?ix ds)). next_doc_id ix < i"
    by auto
  then have ge: "\<forall>i \<in> set (fst (index_documents stod ?ix ds)). next_doc_id ix \<le> i"
    by auto
  from ih gt ge e show ?case by (auto split: prod.splits)
qed


lemma posting_ids_Some: "inverted t = Some ps \<Longrightarrow> posting_ids inverted t = map p_doc_id ps"
  by (simp add: posting_ids_def)

lemma new_indexer_sorted: "postings_sorted (new_indexer dir)"
  by (simp add: postings_sorted_def posting_ids_def new_indexer_def)

text \<open>
  C7: let any sequence of calls of \<open>index_document\<close> be made on a new indexer, each with a
  parsed document whose \<open>term_positions\<close> has one entry per term (as an \<open>unordered_map\<close>
  has), and fewer than \<open>2^64 - 1\<close> of them, so that the \<open>uint64_t\<close> counter
  \<open>next_doc_id_\<close> does not wrap around. Then the document ids allocated are strictly
  increasing in the order of the calls, hence unique, and for every term the document ids
  of its posting list are strictly increasing, hence without duplicates.
\<close>

theorem doc_ids_increasing_postings_sorted:
  assumes "\<forall>(d, md) \<in> set ds. distinct (map fst (term_positions d))"
    and "length ds < 2 ^ 64 - 1"
  shows "sorted_wrt (<) (fst (index_documents stod (new_indexer dir) ds)) \<and>
         distinct (fst (index_documents stod (new_indexer dir) ds)) \<and>
         (\<forall>t ps. inverted_index (snd (index_documents stod (new_indexer dir) ds)) t = Some ps \<longrightarrow>
            sorted_wrt (<) (map p_doc_id ps) \<and> distinct (map p_doc_id ps))"
proof -
  let ?r = "index_documents stod (new_indexer dir) ds"
  have "unat (next_doc_id (new_indexer dir)) + length ds < 2 ^ 64"
    using assms(2) by (simp add: new_indexer_def)
  with new_indexer_sorted assms(1)
  have inv: "sorted_wrt (<) (fst ?r) \<and>
     (\<forall>i \<in> set (fst ?r). next_doc_id (new_indexer dir) \<le> i) \<and> postings_sorted (snd ?r)"
    by (rule index_documents_inv)
  then have ids: "sorted_wrt (<) (fst ?r)" and ps: "postings_sorted (snd ?r)" by simp_all
  have "sorted_wrt (<) (map p_doc_id ps)" if "inverted_index (snd ?r) t = Some ps" for t ps
  proof -
    from ps have "sorted_wrt (<) (posting_ids (inverted_index (snd ?r)) t)"
      by (simp add: postings_sorted_def)
    then show ?thesis
      by (simp only: posting_ids_Some [of "inverted_index (snd ?r)" t ps, OF that])
  qed
  with ids show ?thesis by (auto simp: strict_sorted_iff)
qed

lemmas index_eval = index_document_def new_indexer_def cat_doc_def flush_segment_def Let_def

theorem doc_ids_increasing_postings_sorted_witness:
  "distinct (map fst (term_positions (cat_doc ''https://a.test/1''))) \<and>
   fst (index_documents (\<lambda>s. None) (new_indexer ''idx'')
      [(cat_doc ''https://a.test/1'', Map.empty),
       (cat_doc ''https://a.test/2'', [''price'' \<mapsto> ''cheap'']),
       (cat_doc ''https://a.test/3'', Map.empty)]) = [1, 2, 3] \<and>
   map_option (map p_doc_id) (inverted_index (snd (index_documents (\<lambda>s. None) (new_indexer ''idx'')
      [(cat_doc ''https://a.test/1'', Map.empty),
       (cat_doc ''https://a.test/2'', [''price'' \<mapsto> ''cheap'']),
       (cat_doc ''https://a.test/3'', Map.empty)])) ''cat'') = Some [1, 3]"
  using doc_ids_increasing_postings_sorted [of "[(cat_doc ''https://a.test/1'', Map.empty),
       (cat_doc ''https://a.test/2'', [''price'' \<mapsto> ''cheap'']),
       (cat_doc ''https://a.test/3'', Map.empty)]" "\<lambda>s. None" "''idx''"]
  by (simp add: index_eval)


subsection \<open>Search\<close>

lemma set_sort_insert: "set (sort_insert cmp x ys) = insert x (set ys)"
  by (induction ys) auto

lemma sort_insert_sorted:
  "sorted_wrt (\<lambda>a b. snd b \<le> (snd a :: real)) ys \<Longrightarrow>
   sorted_wrt (\<lambda>a b. snd b \<le> snd a) (sort_insert (\<lambda>x y. snd x > snd y) x ys)"
  by (induction ys) (auto simp: set_sort_insert)

lemma std_sort_sorted:
  "sorted_wrt (\<lambda>a b. snd b \<le> (snd a :: real)) (std_sort (\<lambda>x y. snd x > snd y) xs)"
  unfolding std_sort_def by (induction xs) (simp_all add: sort_insert_sorted)

lemma make_result_score: "make_result ix e = Some r \<Longrightarrow> score r = snd e"
  by (auto simp: make_result_def split: option.splits)

lemma map_filter_sorted:
  "sorted_wrt (\<lambda>a b. snd b \<le> (snd a :: real)) es \<Longrightarrow>
   sorted_wrt (\<lambda>a b. score b \<le> score a) (List.map_filter (make_result ix) es)"
proof (induction es)
  case Nil
  then show ?case by (simp add: List.map_filter_simps)
next
  case (Cons e es)
  have mem: "\<exists>e' \<in> set es. score r = snd e'" if "r \<in> set (List.map_filter (make_result ix) es)" for r
    using that by (force simp: List.map_filter_def dest: make_result_score)
  show ?case
  proof (cases "make_result ix e")
    case None
    with Cons show ?thesis by (simp add: List.map_filter_simps)
  next
    case (Some r)
    then have "score r = snd e" by (rule make_result_score)
    with Cons Some mem show ?thesis by (fastforce simp: List.map_filter_simps)
  qed
qed

text \<open>
  C6, as the claim states it, fails: of two documents with equal score the one with the
  smaller document id need not come first. Two documents with the text \<open>cat\<close> get the
  ids 1 and 2 and both score 0 for the query \<open>cat\<close>. The comparator of the sort looks at
  the score only, so their order is the one in which the hash map of the scores is
  visited; when that is the reverse of the order of insertion, document 2 comes first.
\<close>

theorem search_tie_larger_doc_id_first:
  "map r_doc_id (search rev two_cat_index ''cat'' 10) = [2, 1] \<and>
   map score (search rev two_cat_index ''cat'' 10) = [0, 0]"
  by (simp add: two_cat_index_def index_eval search_def score_term_def calculate_bm25_def
      std_sort_def make_result_def is_space_def char_code_def to_lower_def is_upper_def)

text \<open>
  C6, amended: for every query and \<open>topk\<close>, whatever the order in which the hash map is
  visited, \<open>search\<close> returns its results by descending score: no result has a greater
  score than a result before it. The order of results of equal score is not decided by
  the document id.
\<close>

theorem search_sorted_by_score:
  "sorted_wrt (\<lambda>a b. score b \<le> score a) (search iteration_order ix query topk)"
  unfolding search_def Let_def
  by (intro map_filter_sorted sorted_wrt_take std_sort_sorted)

end
